theory Spec2Isabelle
  imports Main
begin

chapter \<open>The data-integrity layer of the event listing application\<close>

text \<open>
  The two Mongoose models of the repository, \<^verbatim>\<open>database/event.model.js\<close> and
  \<^verbatim>\<open>database/booking.model.js\<close>: the slug of an event, the normalization of its date
  and time, the required-field check of the Event hook, the e-mail validator of a
  booking and the reference check of the Booking hook. The definitions come first, in
  the order of the source; the properties follow. What the host provides
  (\<^verbatim>\<open>trim\<close>, \<^verbatim>\<open>toLowerCase\<close>, regular expressions, \<^verbatim>\<open>Date\<close>) is modelled from
  ECMAScript, and what it leaves to the implementation is a parameter.
\<close>

section \<open>JavaScript strings\<close>

text \<open>
  A JavaScript string is a sequence of UTF-16 code units. A code unit is modelled as a
  natural number (the functions below never depend on the bound 65535), a string as the
  list of its code units. \<open>js\<close> turns an Isabelle literal into such a string, so that
  \<open>js ''a-b''\<close> is the JavaScript string \<^verbatim>\<open>'a-b'\<close>.
\<close>

type_synonym jschar = nat
type_synonym jsstring = "jschar list"

definition js :: "string \<Rightarrow> jsstring" where
  "js s = map of_char s"

text \<open>
  The code units the host counts as white space: ECMAScript's WhiteSpace and
  LineTerminator productions. \<^verbatim>\<open>String.prototype.trim\<close> and the regular expression
  class \<^verbatim>\<open>\s\<close> use the same set: TAB, LF, VT, FF, CR, SP, NBSP, U+1680,
  U+2000..U+200A, U+2028, U+2029, U+202F, U+205F, U+3000 and U+FEFF.
\<close>

definition isWhiteSpace :: "jschar \<Rightarrow> bool" where
  "isWhiteSpace c \<longleftrightarrow>
     c = 9 \<or> c = 10 \<or> c = 11 \<or> c = 12 \<or> c = 13 \<or> c = 32 \<or> c = 160 \<or> c = 5760 \<or>
     (8192 \<le> c \<and> c \<le> 8202) \<or> c = 8232 \<or> c = 8233 \<or> c = 8239 \<or> c = 8287 \<or>
     c = 12288 \<or> c = 65279"

definition isDigit :: "jschar \<Rightarrow> bool" where
  "isDigit c \<longleftrightarrow> 48 \<le> c \<and> c \<le> 57"

definition isLowerAZ :: "jschar \<Rightarrow> bool" where
  "isLowerAZ c \<longleftrightarrow> 97 \<le> c \<and> c \<le> 122"

definition isHyphen :: "jschar \<Rightarrow> bool" where
  "isHyphen c \<longleftrightarrow> c = 45"

text \<open>\<^verbatim>\<open>String.prototype.trim\<close>: white space is removed from both ends.\<close>

definition trim :: "jsstring \<Rightarrow> jsstring" where
  "trim s = rev (dropWhile isWhiteSpace (rev (dropWhile isWhiteSpace s)))"

section \<open>The host\<close>

text \<open>
  What the host provides and the repository does not define.
  \<^item> \<open>Date_parse\<close> is \<^verbatim>\<open>Date.parse\<close>: the time value in milliseconds since the epoch,
    or \<open>None\<close> for NaN; outside the ISO format its result is implementation-defined.
  \<^item> \<open>LocalTZA\<close> is the offset of local time, in milliseconds, at a time value.
  \<^item> \<open>toLowerCaseUnicode\<close> is \<^verbatim>\<open>String.prototype.toLowerCase\<close> on a string that holds a
    code unit outside ASCII: the case table of the host's version of Unicode, with its
    rules that look at the neighbours of a character.
\<close>

record host =
  Date_parse :: "jsstring \<Rightarrow> int option"
  LocalTZA :: "int \<Rightarrow> int"
  toLowerCaseUnicode :: "jsstring \<Rightarrow> jsstring"

text \<open>
  \<^verbatim>\<open>String.prototype.toLowerCase\<close>. On a string of ASCII code units Unicode's
  lower-casing is the same in every version and looks at no neighbour: the letters A to
  Z become a to z and nothing else changes. Every other string is the host's to
  convert.
\<close>

definition isASCII :: "jschar \<Rightarrow> bool" where
  "isASCII c \<longleftrightarrow> c < 128"

definition lowerASCII :: "jschar \<Rightarrow> jschar" where
  "lowerASCII c = (if 65 \<le> c \<and> c \<le> 90 then c + 32 else c)"

definition toLowerCase :: "host \<Rightarrow> jsstring \<Rightarrow> jsstring" where
  "toLowerCase host s =
     (if list_all isASCII s then map lowerASCII s else toLowerCaseUnicode host s)"

section \<open>Global replacement by a regular expression\<close>

text \<open>
  \<^verbatim>\<open>s.replace(/[C]/g, r)\<close> for a character class \<open>C\<close>: every code unit of the class is
  replaced by \<open>r\<close>.
\<close>

definition replaceEach :: "(jschar \<Rightarrow> bool) \<Rightarrow> jsstring \<Rightarrow> jsstring \<Rightarrow> jsstring" where
  "replaceEach C r s = concat (map (\<lambda>c. if C c then r else [c]) s)"

text \<open>
  \<^verbatim>\<open>s.replace(/[C]+/g, r)\<close>: the scan goes from left to right; at a code unit of the
  class the greedy \<^verbatim>\<open>+\<close> takes the whole run, the run is replaced by \<open>r\<close>, and the
  scan goes on behind the run.
\<close>

function replaceRuns :: "(jschar \<Rightarrow> bool) \<Rightarrow> jsstring \<Rightarrow> jsstring \<Rightarrow> jsstring" where
  "replaceRuns C r [] = []"
| "replaceRuns C r (c # cs) =
     (if C c then r @ replaceRuns C r (dropWhile C cs) else c # replaceRuns C r cs)"
  by pat_completeness auto
termination
  by (relation "measure (\<lambda>(C, r, s). length s)")
     (auto simp: less_Suc_eq_le length_dropWhile_le)

text \<open>
  \<^verbatim>\<open>s.replace(/^-+|-+$/g, '')\<close>. The flag says whether the scan stands at index 0,
  the only place where \<^verbatim>\<open>^\<close> matches. There the first alternative takes the whole
  leading run of hyphens. Elsewhere only the second alternative can match: a run of
  hyphens that reaches the end of the string. A hyphen before anything else is kept.
\<close>

function replaceEdgeHyphens :: "bool \<Rightarrow> jsstring \<Rightarrow> jsstring" where
  "replaceEdgeHyphens at0 [] = []"
| "replaceEdgeHyphens at0 (c # cs) =
     (if isHyphen c \<and> at0 then replaceEdgeHyphens False (dropWhile isHyphen cs)
      else if isHyphen c \<and> list_all isHyphen cs then []
      else c # replaceEdgeHyphens False cs)"
  by pat_completeness auto
termination
  by (relation "measure (\<lambda>(b, s). length s)")
     (auto simp: less_Suc_eq_le length_dropWhile_le)

section \<open>Slugs (event.model.js, slugify)\<close>

text \<open>The class \<^verbatim>\<open>[^a-z0-9\s-]\<close> of the first replacement.\<close>

definition notSlugSource :: "jschar \<Rightarrow> bool" where
  "notSlugSource c \<longleftrightarrow> \<not> (isLowerAZ c \<or> isDigit c \<or> isWhiteSpace c \<or> isHyphen c)"

text \<open>
  \<^verbatim>\<open>String(text).toLowerCase().trim().replace(/[^a-z0-9\s-]/g, '')
    .replace(/\s+/g, '-').replace(/-+/g, '-').replace(/^-+|-+$/g, '')\<close>
  for a string \<open>text\<close> (the hook passes \<^verbatim>\<open>this.title || ''\<close>, a string).
\<close>

definition slugify :: "host \<Rightarrow> jsstring \<Rightarrow> jsstring" where
  "slugify host text =
     replaceEdgeHyphens True
       (replaceRuns isHyphen (js ''-'')
         (replaceRuns isWhiteSpace (js ''-'')
           (replaceEach notSlugSource (js '''')
             (trim (toLowerCase host text)))))"

subsection \<open>The slug as the specification words it\<close>

text \<open>
  The specification's algorithm, step by step: lowercase the title, trim whitespace,
  strip every character that is not a lowercase letter, digit, whitespace, or hyphen,
  collapse runs of whitespace into a single hyphen, collapse runs of hyphen into one,
  strip leading and trailing hyphens. A run is collapsed by dropping each of its
  members that is followed by another member and writing a hyphen for the last.
\<close>

fun collapseRuns :: "(jschar \<Rightarrow> bool) \<Rightarrow> jsstring \<Rightarrow> jsstring" where
  "collapseRuns C [] = []"
| "collapseRuns C [c] = (if C c then [45] else [c])"
| "collapseRuns C (c # d # cs) =
     (if C c then (if C d then collapseRuns C (d # cs) else 45 # collapseRuns C (d # cs))
      else c # collapseRuns C (d # cs))"

definition stripHyphens :: "jsstring \<Rightarrow> jsstring" where
  "stripHyphens s = rev (dropWhile isHyphen (rev (dropWhile isHyphen s)))"

definition spec_slug :: "host \<Rightarrow> jsstring \<Rightarrow> jsstring" where
  "spec_slug host T =
     stripHyphens
       (collapseRuns isHyphen
         (collapseRuns isWhiteSpace
           (filter (\<lambda>c. isLowerAZ c \<or> isDigit c \<or> isWhiteSpace c \<or> isHyphen c)
             (trim (toLowerCase host T)))))"

subsection \<open>Well-formed slugs\<close>

text \<open>
  What the specification says of a derived slug: only lowercase letters, digits and
  hyphens; no two hyphens in a row; no hyphen first or last.
\<close>

definition isSlugChar :: "jschar \<Rightarrow> bool" where
  "isSlugChar c \<longleftrightarrow> isLowerAZ c \<or> isDigit c \<or> isHyphen c"

definition singleHyphens :: "jsstring \<Rightarrow> bool" where
  "singleHyphens s = successively (\<lambda>a b. \<not> (isHyphen a \<and> isHyphen b)) s"

definition noEdgeHyphen :: "jsstring \<Rightarrow> bool" where
  "noEdgeHyphen s = (case s of [] \<Rightarrow> True | c # cs \<Rightarrow> \<not> isHyphen c \<and> \<not> isHyphen (last (c # cs)))"

section \<open>JavaScript values\<close>

text \<open>
  The values a caller can hand to \<open>normalizeTime\<close>. Strings carry their code units.
  Every value that is neither a string, a boolean, \<^verbatim>\<open>undefined\<close> nor \<^verbatim>\<open>null\<close> (a
  number, a bigint, a symbol, an object, a function) is \<open>JOther\<close>: what the code can
  observe of it is whether it is truthy, and which value it is.
\<close>

datatype jsvalue =
    JUndefined
  | JNull
  | JBoolean bool
  | JString jsstring
  | JOther bool nat

fun truthy :: "jsvalue \<Rightarrow> bool" where
  "truthy JUndefined = False"
| "truthy JNull = False"
| "truthy (JBoolean b) = b"
| "truthy (JString s) = (s \<noteq> [])"
| "truthy (JOther t i) = t"

fun isString :: "jsvalue \<Rightarrow> bool" where
  "isString (JString s) = True"
| "isString v = False"

text \<open>\<^verbatim>\<open>getHours\<close> and \<^verbatim>\<open>getMinutes\<close> of \<^verbatim>\<open>new Date(t)\<close>, in local time.\<close>

definition getHours :: "host \<Rightarrow> int \<Rightarrow> nat" where
  "getHours h t = nat (((t + LocalTZA h t) div 3600000) mod 24)"

definition getMinutes :: "host \<Rightarrow> int \<Rightarrow> nat" where
  "getMinutes h t = nat (((t + LocalTZA h t) div 60000) mod 60)"

text \<open>\<^verbatim>\<open>String(n)\<close> for a non-negative integer: its decimal digits.\<close>

function decimal :: "nat \<Rightarrow> jsstring" where
  "decimal n = (if n < 10 then [48 + n] else decimal (n div 10) @ [48 + n mod 10])"
  by pat_completeness auto
termination
  by (relation "measure (\<lambda>n. n)") auto

text \<open>\<^verbatim>\<open>s.padStart(k, '0')\<close>.\<close>

definition padStart0 :: "nat \<Rightarrow> jsstring \<Rightarrow> jsstring" where
  "padStart0 k s = replicate (k - length s) 48 @ s"

text \<open>\<^verbatim>\<open>Number(s)\<close> for a string of decimal digits, as the capture groups are.\<close>

definition Number_digits :: "jsstring \<Rightarrow> nat" where
  "Number_digits s = foldl (\<lambda>a c. 10 * a + (c - 48)) 0 s"

section \<open>Times (event.model.js, normalizeTime)\<close>

text \<open>
  The template \<^verbatim>\<open>`${String(h).padStart(2, '0')}:${String(m).padStart(2, '0')}`\<close>.
\<close>

definition renderTime :: "nat \<Rightarrow> nat \<Rightarrow> jsstring" where
  "renderTime h m = padStart0 2 (decimal h) @ js '':'' @ padStart0 2 (decimal m)"

text \<open>
  \<^verbatim>\<open>\d{1,2}\<close> at the start of a string, greedy: the digits taken and the rest. In both
  expressions below, what follows cannot start with a digit, so giving back the second
  digit never leads to a match, and the greedy choice is the only one.
\<close>

fun digits12 :: "jsstring \<Rightarrow> (jsstring \<times> jsstring) option" where
  "digits12 [] = None"
| "digits12 [a] = (if isDigit a then Some ([a], []) else None)"
| "digits12 (a # b # r) =
     (if isDigit a then (if isDigit b then Some ([a, b], r) else Some ([a], b # r)) else None)"

text \<open>\<^verbatim>\<open>\d{2}\<close> at the start of a string.\<close>

fun digits2 :: "jsstring \<Rightarrow> (jsstring \<times> jsstring) option" where
  "digits2 (a # b # r) = (if isDigit a \<and> isDigit b then Some ([a, b], r) else None)"
| "digits2 r = None"

text \<open>
  \<^verbatim>\<open>v.match(/^(\d{1,2}):(\d{2})$/)\<close>: the two capture groups, or \<open>None\<close> for
  \<^verbatim>\<open>null\<close>.
\<close>

definition match_hhmm :: "jsstring \<Rightarrow> (jsstring \<times> jsstring) option" where
  "match_hhmm v =
     (case digits12 v of
        None \<Rightarrow> None
      | Some (g1, r) \<Rightarrow>
          (case r of
             [] \<Rightarrow> None
           | c # r' \<Rightarrow>
               if c = 58 then
                 (case digits2 r' of
                    None \<Rightarrow> None
                  | Some (g2, r'') \<Rightarrow> if r'' = [] then Some (g1, g2) else None)
               else None))"

text \<open>
  \<^verbatim>\<open>(am|pm)$\<close> under the flag \<^verbatim>\<open>i\<close>: the rest of the string is one of a, A, p, P
  followed by m or M. (Without the flag \<^verbatim>\<open>u\<close> no code unit outside ASCII is
  equivalent to an ASCII letter.)
\<close>

fun isAmPm :: "jsstring \<Rightarrow> bool" where
  "isAmPm [x, y] = ((x = 97 \<or> x = 65 \<or> x = 112 \<or> x = 80) \<and> (y = 109 \<or> y = 77))"
| "isAmPm r = False"

text \<open>\<^verbatim>\<open>/pm/i.test(s)\<close>: somewhere in \<open>s\<close> a p or P is followed by an m or M.\<close>

fun test_pm :: "jsstring \<Rightarrow> bool" where
  "test_pm (x # y # r) = (((x = 112 \<or> x = 80) \<and> (y = 109 \<or> y = 77)) \<or> test_pm (y # r))"
| "test_pm r = False"

text \<open>
  \<^verbatim>\<open>v.match(/^(\d{1,2})(?::(\d{2}))?\s*(am|pm)$/i)\<close>: the three capture groups, the
  second \<open>None\<close> when the optional group took no part. The optional group and
  \<^verbatim>\<open>\s*\<close> are greedy, and giving back what they took never leads to a match: what
  follows them starts with neither a colon nor white space.
\<close>

definition match_ampm :: "jsstring \<Rightarrow> (jsstring \<times> jsstring option \<times> jsstring) option" where
  "match_ampm v =
     (case digits12 v of
        None \<Rightarrow> None
      | Some (g1, r) \<Rightarrow>
          (let (g2, r1) =
                 (case r of
                    [] \<Rightarrow> (None, r)
                  | c # r' \<Rightarrow>
                      if c = 58 then
                        (case digits2 r' of None \<Rightarrow> (None, r) | Some (m, r'') \<Rightarrow> (Some m, r''))
                      else (None, r));
               g3 = dropWhile isWhiteSpace r1
           in if isAmPm g3 then Some (g1, g2, g3) else None))"

text \<open>
  The third grammar: \<^verbatim>\<open>Date.parse(v)\<close>, and the local hours and minutes of the
  result; \<open>v\<close> itself when the host answers NaN. (What \<^verbatim>\<open>Date.parse\<close> returns
  other than NaN is a time value, so \<^verbatim>\<open>new Date(parsed)\<close> is a valid date.)
\<close>

definition timeFromDate :: "host \<Rightarrow> jsstring \<Rightarrow> jsstring" where
  "timeFromDate host v =
     (case Date_parse host v of
        Some parsed \<Rightarrow> renderTime (getHours host parsed) (getMinutes host parsed)
      | None \<Rightarrow> v)"

text \<open>The second grammar, and the third when it does not match.\<close>

definition timeFromAmPm :: "host \<Rightarrow> jsstring \<Rightarrow> jsstring" where
  "timeFromAmPm host v =
     (case match_ampm v of
        Some (g1, g2, g3) \<Rightarrow>
          (let h = Number_digits g1;
               m = (case g2 of Some s \<Rightarrow> Number_digits s | None \<Rightarrow> 0);
               isPm = test_pm g3;
               h' = (if h = 12 then (if isPm then 12 else 0) else if isPm then h + 12 else h)
           in renderTime h' m)
      | None \<Rightarrow> timeFromDate host v)"

text \<open>
  The body of \<open>normalizeTime\<close> for a non-empty string: the first grammar, with its
  range check; an \<^verbatim>\<open>hh:mm\<close> out of range falls through to the other two.
\<close>

definition normalizeTimeString :: "host \<Rightarrow> jsstring \<Rightarrow> jsstring" where
  "normalizeTimeString host value =
     (let v = trim value in
      case match_hhmm v of
        Some (g1, g2) \<Rightarrow>
          (let h = Number_digits g1; m = Number_digits g2
           in if 0 \<le> h \<and> h < 24 \<and> 0 \<le> m \<and> m < 60 then renderTime h m
              else timeFromAmPm host v)
      | None \<Rightarrow> timeFromAmPm host v)"

text \<open>
  \<^verbatim>\<open>if (!value || typeof value !== 'string') return value;\<close> and then the body.
\<close>

definition normalizeTime :: "host \<Rightarrow> jsvalue \<Rightarrow> jsvalue" where
  "normalizeTime host value =
     (if \<not> truthy value \<or> \<not> isString value then value
      else (case value of
              JString s \<Rightarrow> JString (normalizeTimeString host s)
            | _ \<Rightarrow> value))"

text \<open>
  The canonical form of a time: two digits, a colon, two digits, the hour at most 23 and
  the minute at most 59.
\<close>

fun isCanonicalTime :: "jsstring \<Rightarrow> bool" where
  "isCanonicalTime [h1, h2, c, m1, m2] =
     (isDigit h1 \<and> isDigit h2 \<and> c = 58 \<and> isDigit m1 \<and> isDigit m2 \<and>
      Number_digits [h1, h2] < 24 \<and> Number_digits [m1, m2] < 60)"
| "isCanonicalTime s = False"

text \<open>
  A host that parses no date at all and keeps UTC, for concrete runs on ASCII strings
  (its case table leaves every other string as it is).
\<close>

definition host0 :: host where
  "host0 = \<lparr>Date_parse = (\<lambda>s. None), LocalTZA = (\<lambda>t. 0), toLowerCaseUnicode = (\<lambda>s. s)\<rparr>"

section \<open>Dates of the host\<close>

text \<open>
  \<^verbatim>\<open>new Date(s)\<close> for a string: the time value \<^verbatim>\<open>Date.parse(s)\<close> after TimeClip, which
  makes a value beyond 8.64e15 milliseconds an invalid date. \<open>None\<close> is the invalid
  date, whose \<^verbatim>\<open>getTime()\<close> is NaN.
\<close>

definition newDate :: "host \<Rightarrow> jsstring \<Rightarrow> int option" where
  "newDate host s =
     (case Date_parse host s of
        None \<Rightarrow> None
      | Some t \<Rightarrow> if \<bar>t\<bar> \<le> 8640000000000000 then Some t else None)"

text \<open>
  The calendar of ECMAScript (section Time Values and Time Range): days since the
  epoch, the day a year starts with, the year of a day, the day within the year, and
  month and day of the month from the table of month lengths. The year of a day is
  found from an estimate that is off by at most one.
\<close>

definition Day :: "int \<Rightarrow> int" where
  "Day t = t div 86400000"

definition DayFromYear :: "int \<Rightarrow> int" where
  "DayFromYear y = 365 * (y - 1970) + (y - 1969) div 4 - (y - 1901) div 100 + (y - 1601) div 400"

definition DaysInYear :: "int \<Rightarrow> int" where
  "DaysInYear y =
     (if y mod 4 \<noteq> 0 then 365 else if y mod 100 \<noteq> 0 then 366
      else if y mod 400 \<noteq> 0 then 365 else 366)"

definition YearFromDay :: "int \<Rightarrow> int" where
  "YearFromDay d =
     (let y = 1970 + (400 * d) div 146097
      in if d < DayFromYear y then y - 1 else if DayFromYear (y + 1) \<le> d then y + 1 else y)"

definition YearFromTime :: "int \<Rightarrow> int" where
  "YearFromTime t = YearFromDay (Day t)"

definition DayWithinYear :: "int \<Rightarrow> int" where
  "DayWithinYear t = Day t - DayFromYear (YearFromTime t)"

definition InLeapYear :: "int \<Rightarrow> int" where
  "InLeapYear t = (if DaysInYear (YearFromTime t) = 366 then 1 else 0)"

text \<open>The month, counted from 0, of the day \<open>d\<close> of a year; \<open>l\<close> is 1 in a leap year.\<close>

definition monthOfDay :: "int \<Rightarrow> int \<Rightarrow> nat" where
  "monthOfDay d l =
     (if d < 31 then 0 else if d < 59 + l then 1 else if d < 90 + l then 2
      else if d < 120 + l then 3 else if d < 151 + l then 4 else if d < 181 + l then 5
      else if d < 212 + l then 6 else if d < 243 + l then 7 else if d < 273 + l then 8
      else if d < 304 + l then 9 else if d < 334 + l then 10 else 11)"

definition dateOfDay :: "int \<Rightarrow> int \<Rightarrow> int" where
  "dateOfDay d l =
     (let m = monthOfDay d l in
      if m = 0 then d + 1 else if m = 1 then d - 30 else if m = 2 then d - 58 - l
      else if m = 3 then d - 89 - l else if m = 4 then d - 119 - l
      else if m = 5 then d - 150 - l else if m = 6 then d - 180 - l
      else if m = 7 then d - 211 - l else if m = 8 then d - 242 - l
      else if m = 9 then d - 272 - l else if m = 10 then d - 303 - l else d - 333 - l)"

definition MonthFromTime :: "int \<Rightarrow> nat" where
  "MonthFromTime t = monthOfDay (DayWithinYear t) (InLeapYear t)"

definition DateFromTime :: "int \<Rightarrow> nat" where
  "DateFromTime t = nat (dateOfDay (DayWithinYear t) (InLeapYear t))"

text \<open>
  \<^verbatim>\<open>Date.prototype.toISOString\<close>, in UTC: \<^verbatim>\<open>YYYY-MM-DDTHH:mm:ss.sssZ\<close>, the year
  with a sign and six digits when it is not between 0 and 9999.
\<close>

definition isoYear :: "int \<Rightarrow> jsstring" where
  "isoYear y =
     (if 0 \<le> y \<and> y \<le> 9999 then padStart0 4 (decimal (nat y))
      else (if y < 0 then js ''-'' else js ''+'') @ padStart0 6 (decimal (nat \<bar>y\<bar>)))"

definition toISOString :: "int \<Rightarrow> jsstring" where
  "toISOString t =
     isoYear (YearFromTime t) @ js ''-'' @
     padStart0 2 (decimal (MonthFromTime t + 1)) @ js ''-'' @
     padStart0 2 (decimal (DateFromTime t)) @ js ''T'' @
     padStart0 2 (decimal (nat ((t div 3600000) mod 24))) @ js '':'' @
     padStart0 2 (decimal (nat ((t div 60000) mod 60))) @ js '':'' @
     padStart0 2 (decimal (nat ((t div 1000) mod 60))) @ js ''.'' @
     padStart0 3 (decimal (nat (t mod 1000))) @ js ''Z''"

text \<open>\<^verbatim>\<open>s.split('T')[0]\<close>: what stands before the first \<^verbatim>\<open>T\<close>, all of \<open>s\<close> without one.\<close>

definition splitT0 :: "jsstring \<Rightarrow> jsstring" where
  "splitT0 s = takeWhile (\<lambda>c. c \<noteq> 84) s"

text \<open>
  The canonical year-month-day form, as the date-time string format of ECMAScript
  writes a calendar date: \<^verbatim>\<open>YYYY-MM-DD\<close>, or \<^verbatim>\<open>+YYYYYY-MM-DD\<close> and
  \<^verbatim>\<open>-YYYYYY-MM-DD\<close> for a year beyond four digits; the month from 01 to 12 and the
  day from 01 to 31.
\<close>

fun isMonthDay :: "jsstring \<Rightarrow> bool" where
  "isMonthDay [h1, m1, m2, h2, d1, d2] =
     (h1 = 45 \<and> isDigit m1 \<and> isDigit m2 \<and> h2 = 45 \<and> isDigit d1 \<and> isDigit d2 \<and>
      1 \<le> Number_digits [m1, m2] \<and> Number_digits [m1, m2] \<le> 12 \<and>
      1 \<le> Number_digits [d1, d2] \<and> Number_digits [d1, d2] \<le> 31)"
| "isMonthDay r = False"

definition isCanonicalDate :: "jsstring \<Rightarrow> bool" where
  "isCanonicalDate s \<longleftrightarrow>
     (length s = 10 \<and> list_all isDigit (take 4 s) \<and> isMonthDay (drop 4 s)) \<or>
     (length s = 13 \<and> (take 1 s = js ''+'' \<or> take 1 s = js ''-'') \<and>
      list_all isDigit (take 6 (drop 1 s)) \<and> isMonthDay (drop 7 s))"

section \<open>Events (event.model.js)\<close>

text \<open>
  An Event document. Every path of the schema is of type String or [String], so a field
  holds a string (an array of strings) or nothing: \<open>None\<close> stands for \<^verbatim>\<open>undefined\<close> and
  \<^verbatim>\<open>null\<close>, and for \<open>agenda\<close> and \<open>tags\<close> for anything that is not an array. The path
  \<^verbatim>\<open>image\<close> is the field \<open>image_path\<close>.
\<close>

record event =
  title :: "jsstring option"
  slug :: "jsstring option"
  description :: "jsstring option"
  overview :: "jsstring option"
  image_path :: "jsstring option"
  venue :: "jsstring option"
  location :: "jsstring option"
  date :: "jsstring option"
  time :: "jsstring option"
  mode :: "jsstring option"
  audience :: "jsstring option"
  agenda :: "jsstring list option"
  organizer :: "jsstring option"
  tags :: "jsstring list option"

text \<open>
  What a failed write reports. The hooks hand \<^verbatim>\<open>new Error(message)\<close> to \<^verbatim>\<open>next\<close>.
  Mongoose's own validation of a document reports a \<^verbatim>\<open>ValidationError\<close>, which holds
  for each failing path the message of its failing validator.
\<close>

datatype error =
    Error jsstring
  | ValidationError "(string \<times> jsstring) list"

text \<open>Truthiness of a string field: present and not the empty string.\<close>

fun present :: "jsstring option \<Rightarrow> bool" where
  "present None = False"
| "present (Some s) = (s \<noteq> [])"

text \<open>\<^verbatim>\<open>this[f]\<close> for the names of \<open>requiredStringFields\<close>.\<close>

definition getField :: "event \<Rightarrow> string \<Rightarrow> jsstring option" where
  "getField this f =
     (if f = ''title'' then title this
      else if f = ''description'' then description this
      else if f = ''overview'' then overview this
      else if f = ''image'' then image_path this
      else if f = ''venue'' then venue this
      else if f = ''location'' then location this
      else if f = ''date'' then date this
      else if f = ''time'' then time this
      else if f = ''mode'' then mode this
      else if f = ''audience'' then audience this
      else if f = ''organizer'' then organizer this
      else None)"

text \<open>
  \<^verbatim>\<open>if (this.isModified('title') || !this.slug) this.slug = slugify(this.title || '')\<close>.
  \<open>isModified\<close> is the document's own record of the paths changed since it was loaded.
\<close>

definition deriveSlug :: "host \<Rightarrow> (string \<Rightarrow> bool) \<Rightarrow> event \<Rightarrow> event" where
  "deriveSlug host isModified this =
     (if isModified ''title'' \<or> \<not> present (slug this)
      then this\<lparr>slug := Some (slugify host (case title this of Some t \<Rightarrow> t | None \<Rightarrow> []))\<rparr>
      else this)"

text \<open>
  The date block: \<^verbatim>\<open>new Date(this.date)\<close>, and for a valid date
  \<^verbatim>\<open>parsed.toISOString().split('T')[0]\<close>. Nothing in the \<^verbatim>\<open>try\<close> raises: the
  constructor never does for a string, and \<^verbatim>\<open>toISOString\<close> only for an invalid date.
\<close>

definition normalizeDate :: "host \<Rightarrow> (string \<Rightarrow> bool) \<Rightarrow> event \<Rightarrow> event" where
  "normalizeDate host isModified this =
     (case date this of
        None \<Rightarrow> this
      | Some d \<Rightarrow>
          if isModified ''date'' \<and> d \<noteq> [] then
            (case newDate host d of
               Some parsed \<Rightarrow> this\<lparr>date := Some (splitT0 (toISOString parsed))\<rparr>
             | None \<Rightarrow> this)
          else this)"

text \<open>
  \<^verbatim>\<open>if (this.isModified('time') && this.time) this.time = normalizeTime(this.time)\<close>.
\<close>

definition normalizeTimeField :: "host \<Rightarrow> (string \<Rightarrow> bool) \<Rightarrow> event \<Rightarrow> event" where
  "normalizeTimeField host isModified this =
     (case time this of
        None \<Rightarrow> this
      | Some t \<Rightarrow>
          if isModified ''time'' \<and> t \<noteq> [] then
            (case normalizeTime host (JString t) of
               JString t' \<Rightarrow> this\<lparr>time := Some t'\<rparr>
             | _ \<Rightarrow> this)
          else this)"

definition requiredStringFields :: "string list" where
  "requiredStringFields =
     [''title'', ''description'', ''overview'', ''image'', ''venue'', ''location'', ''date'',
      ''time'', ''mode'', ''audience'', ''organizer'']"

text \<open>\<^verbatim>\<open>!this[f] || String(this[f]).trim() === ''\<close>.\<close>

fun blank :: "jsstring option \<Rightarrow> bool" where
  "blank None = True"
| "blank (Some s) = (s = [] \<or> trim s = [])"

text \<open>The loop over \<open>requiredStringFields\<close>: it returns at the first blank field.\<close>

fun checkRequired :: "event \<Rightarrow> string list \<Rightarrow> error option" where
  "checkRequired this [] = None"
| "checkRequired this (f # fs) =
     (if blank (getField this f)
      then Some (Error (js f @ js '' is required and cannot be empty''))
      else checkRequired this fs)"

text \<open>\<^verbatim>\<open>!Array.isArray(a) || a.length === 0\<close>.\<close>

fun emptyArray :: "jsstring list option \<Rightarrow> bool" where
  "emptyArray None = True"
| "emptyArray (Some a) = (length a = 0)"

definition checkArrays :: "event \<Rightarrow> error option" where
  "checkArrays this =
     (if emptyArray (agenda this)
      then Some (Error (js ''agenda must be a non-empty array of strings''))
      else if emptyArray (tags this)
      then Some (Error (js ''tags must be a non-empty array of strings''))
      else None)"

definition validateEvent :: "event \<Rightarrow> error option" where
  "validateEvent this =
     (case checkRequired this requiredStringFields of
        Some e \<Rightarrow> Some e
      | None \<Rightarrow> checkArrays this)"

text \<open>
  The hook \<^verbatim>\<open>EventSchema.pre('save', ...)\<close>: the document as the hook leaves it, and
  what it hands to \<^verbatim>\<open>next\<close> (\<open>None\<close> for \<^verbatim>\<open>next()\<close>, after which the write goes
  on; an error aborts it).
\<close>

definition EventSchema_pre_save ::
  "host \<Rightarrow> (string \<Rightarrow> bool) \<Rightarrow> event \<Rightarrow> event \<times> error option" where
  "EventSchema_pre_save host isModified this =
     (let this1 = deriveSlug host isModified this;
          this2 = normalizeDate host isModified this1;
          this3 = normalizeTimeField host isModified this2
      in (this3, validateEvent this3))"

text \<open>A complete event, for concrete runs.\<close>

definition event0 :: event where
  "event0 =
     \<lparr>title = Some (js ''Hello, World!!''), slug = Some (js ''my-slug''),
      description = Some (js ''d''), overview = Some (js ''o''), image_path = Some (js ''i.png''),
      venue = Some (js ''v''), location = Some (js ''l''), date = Some (js ''someday''),
      time = Some (js ''9:00 AM''), mode = Some (js ''online''), audience = Some (js ''all''),
      agenda = Some [js ''intro''], organizer = Some (js ''org''), tags = Some [js ''t'']\<rparr>"

text \<open>
  A host that keeps UTC and parses one date, written the American way, as midnight UTC
  of that day.
\<close>

definition host1 :: host where
  "host1 =
     \<lparr>Date_parse = (\<lambda>s. if s = js ''March 8, 2024'' then Some 1709856000000 else None),
      LocalTZA = (\<lambda>t. 0), toLowerCaseUnicode = (\<lambda>s. s)\<rparr>"

text \<open>
  A host in Tokyo: local time is nine hours ahead of UTC, and a date without an offset
  is parsed as local time, so \<^verbatim>\<open>March 8, 2024\<close> and \<^verbatim>\<open>2024-03-08T00:00:00\<close> both are
  midnight of that day in Tokyo, 15:00 UTC of the day before.
\<close>

definition hostTokyo :: host where
  "hostTokyo =
     \<lparr>Date_parse =
        (\<lambda>s. if s = js ''March 8, 2024'' \<or> s = js ''2024-03-08T00:00:00''
             then Some 1709823600000 else None),
      LocalTZA = (\<lambda>t. 32400000), toLowerCaseUnicode = (\<lambda>s. s)\<rparr>"

section \<open>Regular expressions of the host\<close>

text \<open>
  The part of the regular expression syntax that the e-mail validator uses: character
  classes (a single character and \<^verbatim>\<open>.\<close> are classes too), alternation, concatenation,
  and the quantifiers \<^verbatim>\<open>*\<close>, \<^verbatim>\<open>+\<close> and \<^verbatim>\<open>{2,}\<close>. Groups only bracket, since
  \<^verbatim>\<open>test\<close> does not look at what they capture. \<open>NoMatch\<close> (nothing matches) and
  \<open>EmptyStr\<close> (only the empty string matches) arise while matching.
\<close>

datatype rexp =
    NoMatch
  | EmptyStr
  | Class "jschar \<Rightarrow> bool"
  | Alt rexp rexp
  | Seq rexp rexp
  | Star rexp

definition Plus :: "rexp \<Rightarrow> rexp" where
  "Plus r = Seq r (Star r)"

definition AtLeast2 :: "rexp \<Rightarrow> rexp" where
  "AtLeast2 r = Seq r (Seq r (Star r))"

text \<open>
  \<^verbatim>\<open>/^(r)$/.test(s)\<close>: whether all of \<open>s\<close> matches \<open>r\<close>. With both ends anchored and
  no capture read, a backtracking matcher finds a match exactly when one exists, so the
  test is computed here by derivatives: \<open>deriv c r\<close> matches what \<open>r\<close> matches after a
  leading \<open>c\<close>.
\<close>

fun nullable :: "rexp \<Rightarrow> bool" where
  "nullable NoMatch = False"
| "nullable EmptyStr = True"
| "nullable (Class C) = False"
| "nullable (Alt r s) = (nullable r \<or> nullable s)"
| "nullable (Seq r s) = (nullable r \<and> nullable s)"
| "nullable (Star r) = True"

fun deriv :: "jschar \<Rightarrow> rexp \<Rightarrow> rexp" where
  "deriv c NoMatch = NoMatch"
| "deriv c EmptyStr = NoMatch"
| "deriv c (Class C) = (if C c then EmptyStr else NoMatch)"
| "deriv c (Alt r s) = Alt (deriv c r) (deriv c s)"
| "deriv c (Seq r s) =
     (if nullable r then Alt (Seq (deriv c r) s) (deriv c s) else Seq (deriv c r) s)"
| "deriv c (Star r) = Seq (deriv c r) (Star r)"

definition regexTest :: "rexp \<Rightarrow> jsstring \<Rightarrow> bool" where
  "regexTest r s = nullable (foldl (\<lambda>r c. deriv c r) r s)"

text \<open>The strings a regular expression matches, as a set.\<close>

inductive_set star :: "jsstring set \<Rightarrow> jsstring set" for A :: "jsstring set" where
  star_empty: "[] \<in> star A"
| star_step: "u \<in> A \<Longrightarrow> v \<in> star A \<Longrightarrow> u @ v \<in> star A"

fun lang :: "rexp \<Rightarrow> jsstring set" where
  "lang NoMatch = {}"
| "lang EmptyStr = {[]}"
| "lang (Class C) = {[c] | c. C c}"
| "lang (Alt r s) = lang r \<union> lang s"
| "lang (Seq r s) = {u @ v | u v. u \<in> lang r \<and> v \<in> lang s}"
| "lang (Star r) = star (lang r)"

section \<open>Bookings (booking.model.js)\<close>

text \<open>
  The class \<^verbatim>\<open>[^<>()[\]\\.,;:\s@\"]\<close> of the validator: every code unit but the
  thirteen listed and white space.
\<close>

definition atomChar :: "jschar \<Rightarrow> bool" where
  "atomChar c \<longleftrightarrow>
     \<not> (c = 60 \<or> c = 62 \<or> c = 40 \<or> c = 41 \<or> c = 91 \<or> c = 93 \<or> c = 92 \<or> c = 46 \<or>
        c = 44 \<or> c = 59 \<or> c = 58 \<or> isWhiteSpace c \<or> c = 64 \<or> c = 34)"

text \<open>\<^verbatim>\<open>.\<close>: every code unit but the line terminators LF, CR, U+2028 and U+2029.\<close>

definition anyChar :: "jschar \<Rightarrow> bool" where
  "anyChar c \<longleftrightarrow> \<not> (c = 10 \<or> c = 13 \<or> c = 8232 \<or> c = 8233)"

definition isChar :: "jschar \<Rightarrow> jschar \<Rightarrow> bool" where
  "isChar a c \<longleftrightarrow> c = a"

text \<open>
  The expression of the validator, between \<^verbatim>\<open>^\<close> and \<^verbatim>\<open>$\<close>, with \<open>A\<close> for the class
  above:
  \<^verbatim>\<open>((A+(\.A+)*)|(".+"))@((A+\.)+A{2,})\<close>.
  The flag \<^verbatim>\<open>i\<close> changes nothing: the expression names no letter, and no code unit is
  case-equivalent to one of the listed punctuation marks.
\<close>

definition emailLocal :: rexp where
  "emailLocal =
     Alt (Seq (Plus (Class atomChar)) (Star (Seq (Class (isChar 46)) (Plus (Class atomChar)))))
         (Seq (Class (isChar 34)) (Seq (Plus (Class anyChar)) (Class (isChar 34))))"

definition emailDomain :: rexp where
  "emailDomain =
     Seq (Plus (Seq (Plus (Class atomChar)) (Class (isChar 46)))) (AtLeast2 (Class atomChar))"

definition emailRe :: rexp where
  "emailRe = Seq emailLocal (Seq (Class (isChar 64)) emailDomain)"

text \<open>
  The grammar as the specification words it: a local part, quoted or unquoted, an
  \<^verbatim>\<open>@\<close>, and a domain with at least one dot and a top-level segment of two or more
  characters. An atom is a non-empty run of code units of the class. An unquoted local
  part is atoms separated by single dots, a quoted one is a non-empty text without line
  terminators between two double quotes, and the domain is one or more atoms, each
  followed by a dot, and then the top-level segment.
\<close>

definition isAtom :: "jsstring \<Rightarrow> bool" where
  "isAtom s \<longleftrightarrow> s \<noteq> [] \<and> list_all atomChar s"

definition unquotedLocal :: "jsstring \<Rightarrow> bool" where
  "unquotedLocal l \<longleftrightarrow>
     (\<exists>a as. isAtom a \<and> list_all isAtom as \<and> l = a @ concat (map (\<lambda>s. [46] @ s) as))"

definition quotedLocal :: "jsstring \<Rightarrow> bool" where
  "quotedLocal l \<longleftrightarrow> (\<exists>m. m \<noteq> [] \<and> list_all anyChar m \<and> l = [34] @ m @ [34])"

definition dottedDomain :: "jsstring \<Rightarrow> bool" where
  "dottedDomain d \<longleftrightarrow>
     (\<exists>b bs t. isAtom b \<and> list_all isAtom bs \<and> list_all atomChar t \<and> 2 \<le> length t \<and>
        d = concat (map (\<lambda>s. s @ [46]) (b # bs)) @ t)"

definition emailGrammar :: "jsstring \<Rightarrow> bool" where
  "emailGrammar v \<longleftrightarrow>
     (\<exists>l d. (unquotedLocal l \<or> quotedLocal l) \<and> dottedDomain d \<and> v = l @ [64] @ d)"

text \<open>The \<^verbatim>\<open>validator\<close> and the \<^verbatim>\<open>message\<close> of the path \<^verbatim>\<open>email\<close>.\<close>

definition emailValidator :: "jsstring \<Rightarrow> bool" where
  "emailValidator v = regexTest emailRe v"

definition emailMessage :: "jsstring \<Rightarrow> jsstring" where
  "emailMessage v = v @ js '' is not a valid email''"

text \<open>
  A Booking document. \<open>eventId\<close> is an ObjectId or nothing; which ObjectId it is, is a
  number here.
\<close>

record booking =
  eventId :: "nat option"
  email :: "jsstring option"

text \<open>
  What Mongoose does with the options of the path \<^verbatim>\<open>email\<close>. \<^verbatim>\<open>trim: true\<close> and
  \<^verbatim>\<open>lowercase: true\<close> are setters: they run when a value is set, the later declared
  first, so the value is lower-cased and then trimmed. \<open>Booking_new\<close> is
  \<^verbatim>\<open>new Booking({eventId, email})\<close>.
\<close>

definition emailSetters :: "host \<Rightarrow> jsstring \<Rightarrow> jsstring" where
  "emailSetters host v = trim (toLowerCase host v)"

definition Booking_new :: "host \<Rightarrow> nat option \<Rightarrow> jsstring option \<Rightarrow> booking" where
  "Booking_new host i e = \<lparr>eventId = i, email = map_option (emailSetters host) e\<rparr>"

text \<open>
  Validation of a document, which \<^verbatim>\<open>save\<close> runs before the hooks: for each path its
  validators in order, \<^verbatim>\<open>required\<close> first (for a string it fails on the empty string
  too), and the message of the first that fails.
\<close>

definition validateBooking :: "booking \<Rightarrow> (string \<times> jsstring) list" where
  "validateBooking this =
     (case eventId this of
        None \<Rightarrow> [(''eventId'', js ''eventId is required'')]
      | Some i \<Rightarrow> []) @
     (case email this of
        None \<Rightarrow> [(''email'', js ''Email is required'')]
      | Some v \<Rightarrow>
          if v = [] then [(''email'', js ''Email is required'')]
          else if \<not> emailValidator v then [(''email'', emailMessage v)]
          else [])"

text \<open>
  The Event model as the Booking hook sees it: the identifiers of the stored events,
  and the error a query raises when the store cannot answer (\<open>None\<close> when it can).
  \<open>EventModel_exists\<close> is \<^verbatim>\<open>await EventModel.exists({ _id: id })\<close>, truthy when an
  Event with that identifier is stored.
\<close>

record eventModel =
  ids :: "nat list"
  failure :: "error option"

definition EventModel_exists :: "eventModel \<Rightarrow> nat \<Rightarrow> error + bool" where
  "EventModel_exists M i =
     (case failure M of Some err \<Rightarrow> Inl err | None \<Rightarrow> Inr (i \<in> set (ids M)))"

text \<open>
  The hook \<^verbatim>\<open>BookingSchema.pre('save', ...)\<close>, given \<^verbatim>\<open>mongoose.models.Event\<close>
  (\<open>None\<close> when no such model is registered): what it hands to \<^verbatim>\<open>next\<close>. An error
  raised by the query is caught and handed on.
\<close>

definition BookingSchema_pre_save :: "eventModel option \<Rightarrow> booking \<Rightarrow> error option" where
  "BookingSchema_pre_save EventModel this =
     (case eventId this of
        None \<Rightarrow> Some (Error (js ''eventId is required''))
      | Some i \<Rightarrow>
          (case EventModel of
             None \<Rightarrow> Some (Error (js ''Event model is not registered''))
           | Some M \<Rightarrow>
               (case EventModel_exists M i of
                  Inl err \<Rightarrow> Some err
                | Inr exists \<Rightarrow>
                    if \<not> exists then Some (Error (js ''Referenced eventId does not exist''))
                    else None)))"

text \<open>
  The store, and \<^verbatim>\<open>booking.save()\<close>: validation, then the hook, then the insert. An
  error of either aborts the save, and the store stays as it was.
\<close>

record store =
  models_Event :: "eventModel option"
  bookings :: "booking list"

definition Booking_save :: "store \<Rightarrow> booking \<Rightarrow> (error + booking) \<times> store" where
  "Booking_save db this =
     (case validateBooking this of
        e # es \<Rightarrow> (Inl (ValidationError (e # es)), db)
      | [] \<Rightarrow>
          (case BookingSchema_pre_save (models_Event db) this of
             Some err \<Rightarrow> (Inl err, db)
           | None \<Rightarrow> (Inr this, db\<lparr>bookings := bookings db @ [this]\<rparr>)))"

text \<open>A store with the events 7 and 8 and no booking, for concrete runs.\<close>

definition store0 :: store where
  "store0 = \<lparr>models_Event = Some \<lparr>ids = [7, 8], failure = None\<rparr>, bookings = []\<rparr>"

section \<open>Properties of slugify\<close>

lemma js_Nil: "js '''' = []"
  by (simp add: js_def)

lemma js_hyphen: "js ''-'' = [45]"
  by (simp add: js_def)

lemma replaceEach_delete: "replaceEach C [] s = filter (\<lambda>c. \<not> C c) s"
  by (induction s) (simp_all add: replaceEach_def)

lemma replaceRuns_skip:
  "C c \<Longrightarrow> C d \<Longrightarrow> replaceRuns C r (c # d # cs) = replaceRuns C r (d # cs)"
  by simp

lemma replaceRuns_collapse: "replaceRuns C [45] s = collapseRuns C s"
proof (induction C s rule: collapseRuns.induct)
  case (1 C)
  show ?case by simp
next
  case (2 C c)
  show ?case by simp
next
  case (3 C c d cs)
  show ?case
  proof (cases "C c")
    case True
    note Cc = this
    show ?thesis
    proof (cases "C d")
      case True
      with Cc 3 show ?thesis by (simp del: replaceRuns.simps add: replaceRuns_skip)
    next
      case False
      with Cc 3 show ?thesis by simp
    qed
  next
    case False
    with 3 show ?thesis by simp
  qed
qed

lemma strip_trailing_Cons:
  "\<not> (P c \<and> list_all P cs) \<Longrightarrow>
     rev (dropWhile P (rev (c # cs))) = c # rev (dropWhile P (rev cs))"
  by (auto simp: dropWhile_append list_all_iff)

lemma strip_trailing_all:
  "list_all P cs \<Longrightarrow> rev (dropWhile P (rev cs)) = []"
  by (simp add: list_all_iff)

lemma replaceEdgeHyphens_False:
  "replaceEdgeHyphens False s = rev (dropWhile isHyphen (rev s))"
proof (induction s)
  case Nil
  show ?case by simp
next
  case (Cons c cs)
  show ?case
  proof (cases "isHyphen c \<and> list_all isHyphen cs")
    case True
    then have "list_all isHyphen (c # cs)" by simp
    from strip_trailing_all [OF this] True show ?thesis by simp
  next
    case False
    from strip_trailing_Cons [OF False] False Cons show ?thesis by auto
  qed
qed

lemma replaceEdgeHyphens_strip: "replaceEdgeHyphens True s = stripHyphens s"
proof (cases s)
  case Nil
  then show ?thesis by (simp add: stripHyphens_def)
next
  case (Cons c cs)
  show ?thesis
  proof (cases "isHyphen c")
    case True
    with Cons show ?thesis
      by (simp add: stripHyphens_def replaceEdgeHyphens_False)
  next
    case False
    then have "\<not> (isHyphen c \<and> list_all isHyphen cs)" by simp
    from strip_trailing_Cons [OF this] False Cons show ?thesis
      by (simp add: stripHyphens_def replaceEdgeHyphens_False)
  qed
qed

lemma slugify_spec_slug: "slugify host T = spec_slug host T"
  by (simp add: slugify_def spec_slug_def js_Nil js_hyphen replaceEach_delete
      replaceRuns_collapse replaceEdgeHyphens_strip notSlugSource_def)

lemma slugChar_not_space: "isSlugChar c \<Longrightarrow> \<not> isWhiteSpace c"
  by (auto simp: isSlugChar_def isLowerAZ_def isDigit_def isHyphen_def isWhiteSpace_def)

lemma lowerASCII_slugChar: "isSlugChar c \<Longrightarrow> isASCII c \<and> lowerASCII c = c"
  by (auto simp: isSlugChar_def isLowerAZ_def isDigit_def isHyphen_def isASCII_def lowerASCII_def)

lemma toLowerCase_slug: "list_all isSlugChar s \<Longrightarrow> toLowerCase host s = s"
proof -
  assume a: "list_all isSlugChar s"
  then have "list_all isASCII s" by (auto simp: list_all_iff dest: lowerASCII_slugChar)
  moreover from a have "map lowerASCII s = s"
    by (intro map_idI) (auto simp: list_all_iff dest: lowerASCII_slugChar)
  ultimately show ?thesis by (simp add: toLowerCase_def)
qed

lemma dropWhile_none: "list_all (\<lambda>c. \<not> P c) s \<Longrightarrow> dropWhile P s = s"
  by (cases s) simp_all

lemma trim_none: "list_all (\<lambda>c. \<not> isWhiteSpace c) s \<Longrightarrow> trim s = s"
  by (simp add: trim_def dropWhile_none)

lemma collapseRuns_Cons_other: "\<not> C d \<Longrightarrow> collapseRuns C (d # cs) = d # collapseRuns C cs"
  by (cases cs) simp_all

lemma collapseRuns_none: "list_all (\<lambda>c. \<not> C c) s \<Longrightarrow> collapseRuns C s = s"
  by (induction s) (simp_all add: collapseRuns_Cons_other)

lemma collapseRuns_set: "set (collapseRuns C s) \<subseteq> insert 45 {x \<in> set s. \<not> C x}"
  by (induction C s rule: collapseRuns.induct) auto

lemma collapseRuns_successively:
  "successively (\<lambda>a b. \<not> (C a \<and> C b)) (collapseRuns C s)"
proof (induction C s rule: collapseRuns.induct)
  case (1 C)
  show ?case by simp
next
  case (2 C c)
  show ?case by simp
next
  case (3 C c d cs)
  show ?case
  proof (cases "C d")
    case True
    with 3 show ?thesis
      by (cases "C c") (auto simp: successively_Cons)
  next
    case False
    with 3 show ?thesis
      by (cases "C c") (auto simp: successively_Cons collapseRuns_Cons_other)
  qed
qed

lemma collapseRuns_single: "singleHyphens (collapseRuns isHyphen s)"
  unfolding singleHyphens_def by (rule collapseRuns_successively)

lemma collapseRuns_id:
  "successively (\<lambda>a b. \<not> (C a \<and> C b)) s \<Longrightarrow> (\<And>x. C x \<Longrightarrow> x = 45) \<Longrightarrow> collapseRuns C s = s"
proof (induction C s rule: collapseRuns.induct)
  case (1 C)
  show ?case by simp
next
  case (2 C c)
  then show ?case by auto
next
  case (3 C c d cs)
  then show ?case by auto
qed

lemma collapseRuns_hyphen_id: "singleHyphens s \<Longrightarrow> collapseRuns isHyphen s = s"
  unfolding singleHyphens_def by (rule collapseRuns_id) (simp_all add: isHyphen_def)

lemma singleHyphens_dropWhile: "singleHyphens s \<Longrightarrow> singleHyphens (dropWhile P s)"
proof -
  assume "singleHyphens s"
  then have "singleHyphens (takeWhile P s @ dropWhile P s)" by simp
  then show ?thesis
    unfolding singleHyphens_def successively_append_iff by simp
qed

lemma singleHyphens_rev: "singleHyphens (rev s) = singleHyphens s"
proof -
  have "(\<lambda>x y. \<not> (isHyphen y \<and> isHyphen x)) = (\<lambda>x y. \<not> (isHyphen x \<and> isHyphen y))"
    by (intro ext) auto
  then show ?thesis
    by (simp only: singleHyphens_def successively_rev)
qed

lemma singleHyphens_strip: "singleHyphens s \<Longrightarrow> singleHyphens (stripHyphens s)"
  by (simp add: stripHyphens_def singleHyphens_rev singleHyphens_dropWhile)

lemma stripHyphens_set: "set (stripHyphens s) \<subseteq> set s"
  by (auto simp: stripHyphens_def dest!: set_dropWhileD)

lemma last_dropWhile: "dropWhile P s \<noteq> [] \<Longrightarrow> last (dropWhile P s) = last s"
  by (induction s) auto

lemma noEdgeHyphen_strip: "noEdgeHyphen (stripHyphens s)"
proof (cases "stripHyphens s")
  case Nil
  then show ?thesis by (simp add: noEdgeHyphen_def)
next
  case (Cons c cs)
  define u where "u = dropWhile isHyphen s"
  define v where "v = dropWhile isHyphen (rev u)"
  have d: "stripHyphens s = rev v" by (simp add: stripHyphens_def u_def v_def)
  with Cons have v: "v \<noteq> []" by auto
  then have u: "rev u \<noteq> []" by (auto simp: v_def)
  from v have 1: "\<not> isHyphen (hd v)" unfolding v_def by (rule hd_dropWhile)
  from v have "last v = last (rev u)" unfolding v_def by (rule last_dropWhile)
  with u have "last v = hd u" by (simp add: last_rev)
  moreover from u have "dropWhile isHyphen s \<noteq> []" by (simp add: u_def)
  then have "\<not> isHyphen (hd u)" unfolding u_def by (rule hd_dropWhile)
  ultimately have 2: "\<not> isHyphen (last v)" by simp
  from v have "hd (rev v) = last v" "last (rev v) = hd v" by (simp_all add: hd_rev last_rev)
  with 1 2 have "\<not> isHyphen (hd (rev v))" "\<not> isHyphen (last (rev v))" by simp_all
  moreover from d Cons have "rev v = c # cs" by simp
  ultimately have "\<not> isHyphen c" "\<not> isHyphen (last (c # cs))" by simp_all
  with Cons show ?thesis by (simp add: noEdgeHyphen_def)
qed

lemma stripHyphens_id: "noEdgeHyphen s \<Longrightarrow> stripHyphens s = s"
proof (cases s)
  case Nil
  then show ?thesis by (simp add: stripHyphens_def)
next
  case (Cons c cs)
  assume "noEdgeHyphen s"
  with Cons have 1: "\<not> isHyphen c" and 2: "\<not> isHyphen (last s)" by (simp_all add: noEdgeHyphen_def)
  from 1 Cons have a: "dropWhile isHyphen s = s" by simp
  from Cons have "rev s \<noteq> []" by simp
  moreover from Cons have "hd (rev s) = last s" by (simp add: hd_rev)
  ultimately have "dropWhile isHyphen (rev s) = rev s" using 2
    by (simp add: dropWhile_eq_self_iff)
  with a show ?thesis by (simp add: stripHyphens_def)
qed

lemma spec_slug_id:
  assumes "list_all isSlugChar s" and "singleHyphens s" and "noEdgeHyphen s"
  shows "spec_slug host s = s"
proof -
  from assms(1) have ns: "list_all (\<lambda>c. \<not> isWhiteSpace c) s"
    by (auto simp: list_all_iff dest: slugChar_not_space)
  from assms(1) have keep: "filter (\<lambda>c. isLowerAZ c \<or> isDigit c \<or> isWhiteSpace c \<or> isHyphen c) s = s"
    by (auto simp: list_all_iff isSlugChar_def intro!: filter_True)
  show ?thesis
    by (simp add: spec_slug_def toLowerCase_slug [OF assms(1)] trim_none [OF ns] keep
        collapseRuns_none [OF ns] collapseRuns_hyphen_id [OF assms(2)]
        stripHyphens_id [OF assms(3)])
qed

lemma spec_slug_chars: "list_all isSlugChar (spec_slug host T)"
proof -
  define a where "a = filter (\<lambda>c. isLowerAZ c \<or> isDigit c \<or> isWhiteSpace c \<or> isHyphen c) (trim (toLowerCase host T))"
  define b where "b = collapseRuns isWhiteSpace a"
  define c where "c = collapseRuns isHyphen b"
  have h: "isSlugChar 45" by (simp add: isSlugChar_def isHyphen_def)
  have "\<forall>x\<in>set a. isLowerAZ x \<or> isDigit x \<or> isWhiteSpace x \<or> isHyphen x"
    by (simp add: a_def)
  with collapseRuns_set [of isWhiteSpace a] h have "\<forall>x\<in>set b. isSlugChar x"
    unfolding b_def by (auto simp: isSlugChar_def)
  with collapseRuns_set [of isHyphen b] h have "\<forall>x\<in>set c. isSlugChar x"
    unfolding c_def by auto
  with stripHyphens_set [of c] have "\<forall>x\<in>set (stripHyphens c). isSlugChar x"
    by auto
  then show ?thesis
    by (simp add: spec_slug_def a_def b_def c_def list_all_iff)
qed

lemma spec_slug_single: "singleHyphens (spec_slug host T)"
  by (simp add: spec_slug_def singleHyphens_strip collapseRuns_single)

lemma spec_slug_edges: "noEdgeHyphen (spec_slug host T)"
  by (simp add: spec_slug_def noEdgeHyphen_strip)

lemma slugify_hello: "slugify host (js ''Hello, World!!'') = js ''hello-world''"
  by (simp add: slugify_def js_def toLowerCase_def isASCII_def lowerASCII_def trim_def isWhiteSpace_def
      replaceEach_def notSlugSource_def isLowerAZ_def isDigit_def isHyphen_def)

text \<open>
  C2. For every title \<open>T\<close> the slug the code derives is the result of the
  specification's algorithm: lowercase, trim, strip every character that is not a
  lowercase letter (a to z), a digit, white space or a hyphen, collapse each run of white
  space into one hyphen, collapse runs of hyphens into one, strip leading and trailing
  hyphens. The title \<^verbatim>\<open>Hello, World!!\<close> derives the slug \<^verbatim>\<open>hello-world\<close>.
\<close>

theorem slugify_refines_spec:
  "slugify host T = spec_slug host T \<and> slugify host (js ''Hello, World!!'') = js ''hello-world''"
  by (rule conjI [OF slugify_spec_slug slugify_hello])

text \<open>
  C8. Slug derivation is idempotent, and every derived slug consists of lowercase
  letters, digits and hyphens only, has no two hyphens in a row, and neither starts nor
  ends with a hyphen.
\<close>

theorem slugify_idempotent:
  "slugify host (slugify host T) = slugify host T \<and> list_all isSlugChar (slugify host T) \<and>
   singleHyphens (slugify host T) \<and> noEdgeHyphen (slugify host T)"
  using spec_slug_id [where s = "spec_slug host T" and host = host,
      OF spec_slug_chars spec_slug_single spec_slug_edges]
  by (simp add: slugify_spec_slug spec_slug_chars spec_slug_single spec_slug_edges)

theorem slugify_idempotent_witness:
  "slugify host0 (slugify host0 (js '' --A  b__c -- d!- '')) = js ''a-bc-d'' \<and>
   slugify host0 (js '' --A  b__c -- d!- '') = js ''a-bc-d'' \<and>
   list_all isSlugChar (js ''a-bc-d'') \<and> singleHyphens (js ''a-bc-d'') \<and>
   noEdgeHyphen (js ''a-bc-d'')"
proof -
  have e: "slugify host0 (js '' --A  b__c -- d!- '') = js ''a-bc-d''"
    by (simp add: slugify_def js_def toLowerCase_def isASCII_def lowerASCII_def trim_def isWhiteSpace_def
        replaceEach_def notSlugSource_def isLowerAZ_def isDigit_def isHyphen_def)
  from slugify_idempotent [of host0 "js '' --A  b__c -- d!- ''"] show ?thesis
    by (simp only: e simp_thms)
qed

section \<open>Properties of normalizeTime\<close>

declare decimal.simps [simp del]

lemmas time_defs =
  decimal.simps normalizeTime_def normalizeTimeString_def timeFromAmPm_def timeFromDate_def
  match_hhmm_def match_ampm_def renderTime_def padStart0_def Number_digits_def
  js_def trim_def isWhiteSpace_def isDigit_def

lemma decimal_two_digits:
  "n < 100 \<Longrightarrow> padStart0 2 (decimal n) = [48 + n div 10, 48 + n mod 10]"
proof (cases "n < 10")
  case True
  then have "decimal n = [48 + n]" by (simp add: decimal.simps)
  with True show ?thesis by (simp add: padStart0_def)
next
  case False
  assume "n < 100"
  with False have "n div 10 < 10" by simp
  then have "decimal (n div 10) = [48 + n div 10]" by (simp add: decimal.simps)
  with False have "decimal n = [48 + n div 10, 48 + n mod 10]"
    by (subst decimal.simps) simp
  then show ?thesis by (simp add: padStart0_def)
qed

lemma renderTime_canonical:
  assumes "h < 24" and "m < 60"
  shows "isCanonicalTime (renderTime h m)"
proof -
  from assms have "h < 100" and "m < 100" by simp_all
  then have r: "renderTime h m = [48 + h div 10, 48 + h mod 10, 58, 48 + m div 10, 48 + m mod 10]"
    by (simp add: renderTime_def decimal_two_digits js_def)
  have "h div 10 \<le> 9" "m div 10 \<le> 9" "h mod 10 \<le> 9" "m mod 10 \<le> 9"
    using assms by arith+
  then have d: "isDigit (48 + h div 10)" "isDigit (48 + h mod 10)"
    "isDigit (48 + m div 10)" "isDigit (48 + m mod 10)"
    by (simp_all add: isDigit_def)
  have n: "Number_digits [48 + h div 10, 48 + h mod 10] = h"
    "Number_digits [48 + m div 10, 48 + m mod 10] = m"
    by (simp_all add: Number_digits_def)
  show ?thesis
    unfolding r isCanonicalTime.simps n using d assms by simp
qed

text \<open>
  C3, where the code departs from it. An input of the 12-hour grammar is rendered
  without the range check that the 24-hour grammar has: \<^verbatim>\<open>9:75 AM\<close> becomes
  \<^verbatim>\<open>09:75\<close> and \<^verbatim>\<open>13pm\<close> becomes \<^verbatim>\<open>25:00\<close>, neither of them a canonical
  24-hour time, whatever the host.
\<close>

theorem normalizeTime_ampm_unchecked:
  "normalizeTime host (JString (js ''9:75 AM'')) = JString (js ''09:75'') \<and>
   \<not> isCanonicalTime (js ''09:75'') \<and>
   normalizeTime host (JString (js ''13pm'')) = JString (js ''25:00'') \<and>
   \<not> isCanonicalTime (js ''25:00'')"
  by (simp add: time_defs)

theorem normalizeTime_ampm_unchecked_witness:
  "normalizeTime host0 (JString (js ''9:75 AM'')) = JString (js ''09:75'') \<and>
   normalizeTime host0 (JString (js ''13pm'')) = JString (js ''25:00'')"
  using normalizeTime_ampm_unchecked [of host0] by simp

text \<open>
  C5. \<^verbatim>\<open>9:00 AM\<close>, \<^verbatim>\<open>09:00\<close> and \<^verbatim>\<open>21:00\<close> are normalized to \<^verbatim>\<open>09:00\<close>,
  \<^verbatim>\<open>09:00\<close> and \<^verbatim>\<open>21:00\<close>. \<^verbatim>\<open>25:00\<close> fails the range check of the first
  grammar and does not match the second; it is returned unchanged when the host's
  \<^verbatim>\<open>Date.parse\<close>, the third grammar, does not accept it either.
\<close>

theorem normalizeTime_examples:
  "normalizeTime host (JString (js ''9:00 AM'')) = JString (js ''09:00'') \<and>
   normalizeTime host (JString (js ''09:00'')) = JString (js ''09:00'') \<and>
   normalizeTime host (JString (js ''21:00'')) = JString (js ''21:00'') \<and>
   (Date_parse host (js ''25:00'') = None \<longrightarrow>
      normalizeTime host (JString (js ''25:00'')) = JString (js ''25:00''))"
  by (simp add: time_defs)

theorem normalizeTime_examples_witness:
  "Date_parse host0 (js ''25:00'') = None \<and>
   normalizeTime host0 (JString (js ''25:00'')) = JString (js ''25:00'') \<and>
   normalizeTime host0 (JString (js ''9:00 AM'')) = JString (js ''09:00'')"
  using normalizeTime_examples [of host0] by (simp add: host0_def)

text \<open>
  C10. A value that is not a string, or is falsy (\<^verbatim>\<open>undefined\<close>, \<^verbatim>\<open>null\<close>, the
  empty string, \<^verbatim>\<open>false\<close>, 0, NaN), is returned as it is. The function is total: no
  path of it raises.
\<close>

theorem normalizeTime_guard:
  "\<not> isString value \<or> \<not> truthy value \<Longrightarrow> normalizeTime host value = value"
  by (auto simp: normalizeTime_def)

theorem normalizeTime_guard_witness:
  "\<not> isString JUndefined \<and> normalizeTime host0 JUndefined = JUndefined \<and>
   \<not> truthy (JString []) \<and> normalizeTime host0 (JString []) = JString [] \<and>
   \<not> isString (JOther True 7) \<and> normalizeTime host0 (JOther True 7) = JOther True 7"
  using normalizeTime_guard [of JUndefined host0]
    normalizeTime_guard [of "JString []" host0]
    normalizeTime_guard [of "JOther True 7" host0]
  by simp

subsection \<open>Canonical results\<close>

lemma timeFromAmPm_canonical:
  assumes "match_ampm v = Some (g1, g2, g3)" and "Number_digits g1 \<le> 12"
    and "case g2 of Some m \<Rightarrow> Number_digits m < 60 | None \<Rightarrow> True"
  shows "isCanonicalTime (timeFromAmPm host v)"
proof -
  define h where "h = Number_digits g1"
  define m where "m = (case g2 of Some s \<Rightarrow> Number_digits s | None \<Rightarrow> 0)"
  define h' where "h' = (if h = 12 then (if test_pm g3 then 12 else 0) else if test_pm g3 then h + 12 else h)"
  from assms(2) have "h' < 24" by (simp add: h'_def h_def)
  moreover from assms(3) have "m < 60" by (simp add: m_def split: option.splits)
  ultimately have c: "isCanonicalTime (renderTime h' m)" by (rule renderTime_canonical)
  from assms(1) have "timeFromAmPm host v = renderTime h' m"
    unfolding h'_def h_def m_def by (simp add: timeFromAmPm_def Let_def)
  with c show ?thesis by (simp only:)
qed

lemma timeFromDate_canonical:
  assumes "Date_parse host v = Some t"
  shows "isCanonicalTime (timeFromDate host v)"
proof -
  have "getHours host t < 24" by (simp add: getHours_def nat_less_iff)
  moreover have "getMinutes host t < 60" by (simp add: getMinutes_def nat_less_iff)
  ultimately have "isCanonicalTime (renderTime (getHours host t) (getMinutes host t))"
    by (rule renderTime_canonical)
  with assms show ?thesis by (simp add: timeFromDate_def)
qed

text \<open>
  Where \<open>normalizeTime\<close> does give a canonical time: for a string of the first grammar
  within the ranges, for a string of the second grammar whose hour is at most 12 and
  whose minute is below 60, and for a string that only the host's \<^verbatim>\<open>Date.parse\<close>
  accepts.
\<close>

theorem normalizeTime_canonical_when_checked:
  "(match_hhmm (trim s) = Some (g1, g2) \<and> Number_digits g1 < 24 \<and> Number_digits g2 < 60 \<longrightarrow>
      isCanonicalTime (normalizeTimeString host s)) \<and>
   (match_hhmm (trim s) = None \<and> match_ampm (trim s) = Some (a1, a2, a3) \<and>
    Number_digits a1 \<le> 12 \<and> (case a2 of Some m \<Rightarrow> Number_digits m < 60 | None \<Rightarrow> True) \<longrightarrow>
      isCanonicalTime (normalizeTimeString host s)) \<and>
   (match_hhmm (trim s) = None \<and> match_ampm (trim s) = None \<and>
    Date_parse host (trim s) = Some t \<longrightarrow>
      isCanonicalTime (normalizeTimeString host s))"
proof (intro conjI impI)
  assume "match_hhmm (trim s) = Some (g1, g2) \<and> Number_digits g1 < 24 \<and> Number_digits g2 < 60"
  then show "isCanonicalTime (normalizeTimeString host s)"
    by (simp add: normalizeTimeString_def Let_def renderTime_canonical)
next
  assume a: "match_hhmm (trim s) = None \<and> match_ampm (trim s) = Some (a1, a2, a3) \<and>
    Number_digits a1 \<le> 12 \<and> (case a2 of Some m \<Rightarrow> Number_digits m < 60 | None \<Rightarrow> True)"
  then have "isCanonicalTime (timeFromAmPm host (trim s))"
    by (intro timeFromAmPm_canonical [of _ a1 a2 a3]) simp_all
  with a show "isCanonicalTime (normalizeTimeString host s)"
    by (simp add: normalizeTimeString_def Let_def)
next
  assume a: "match_hhmm (trim s) = None \<and> match_ampm (trim s) = None \<and>
    Date_parse host (trim s) = Some t"
  then have "isCanonicalTime (timeFromDate host (trim s))"
    by (intro timeFromDate_canonical [of _ _ t]) simp
  with a show "isCanonicalTime (normalizeTimeString host s)"
    by (simp add: normalizeTimeString_def Let_def timeFromAmPm_def)
qed

theorem normalizeTime_canonical_when_checked_witness:
  "isCanonicalTime (normalizeTimeString host1 (js '' 7:05 ''))
   \<and> isCanonicalTime (normalizeTimeString host1 (js ''12:30 am''))
   \<and> isCanonicalTime (normalizeTimeString host1 (js ''March 8, 2024''))"
proof -
  have 1: "match_hhmm (trim (js '' 7:05 '')) = Some (js ''7'', js ''05'') \<and>
      Number_digits (js ''7'') < 24 \<and> Number_digits (js ''05'') < 60"
    by (simp add: time_defs)
  have 2: "match_hhmm (trim (js ''12:30 am'')) = None \<and>
      match_ampm (trim (js ''12:30 am'')) = Some (js ''12'', Some (js ''30''), js ''am'') \<and>
      Number_digits (js ''12'') \<le> 12 \<and>
      (case Some (js ''30'') of Some m \<Rightarrow> Number_digits m < 60 | None \<Rightarrow> True)"
    by (simp add: time_defs)
  have 3: "match_hhmm (trim (js ''March 8, 2024'')) = None \<and>
      match_ampm (trim (js ''March 8, 2024'')) = None \<and>
      Date_parse host1 (trim (js ''March 8, 2024'')) = Some 1709856000000"
    by (simp add: time_defs host1_def)
  from normalizeTime_canonical_when_checked [where s = "js '' 7:05 ''" and host = host1
      and ?g1.0 = "js ''7''" and ?g2.0 = "js ''05''"] 1
    normalizeTime_canonical_when_checked [where s = "js ''12:30 am''" and host = host1
      and ?a1.0 = "js ''12''" and ?a2.0 = "Some (js ''30'')" and ?a3.0 = "js ''am''"] 2
    normalizeTime_canonical_when_checked [where s = "js ''March 8, 2024''" and host = host1
      and t = 1709856000000] 3
  show ?thesis by blast
qed

section \<open>The calendar: the date part of toISOString\<close>

lemma div_step:
  fixes x k :: int
  assumes "0 < k"
  shows "(x + 1) div k = x div k + (if (x + 1) mod k = 0 then 1 else 0)"
proof (cases "x mod k + 1 < k")
  case True
  have e: "x + 1 = k * (x div k) + (x mod k + 1)" by simp
  from assms have n: "0 \<le> x mod k + 1" by (simp add: add_nonneg_nonneg)
  have d: "(x + 1) div k = x div k" by (rule int_div_pos_eq [OF e n True])
  have m: "(x + 1) mod k = x mod k + 1" by (rule int_mod_pos_eq [OF e n True])
  from assms have "0 \<le> x mod k" by simp
  with m have "(x + 1) mod k \<noteq> 0" by linarith
  with d show ?thesis by simp
next
  case False
  from assms have "x mod k < k" by simp
  with False have e: "x mod k + 1 = k" by linarith
  have "x + 1 = k * (x div k) + (x mod k + 1)" by simp
  also have "\<dots> = k * (x div k) + k" by (simp only: e)
  also have "\<dots> = k * (x div k + 1) + 0" by (simp add: algebra_simps)
  finally have f: "x + 1 = k * (x div k + 1) + 0" .
  have "(x + 1) div k = x div k + 1" by (rule int_div_pos_eq [OF f _ assms]) simp
  moreover have "(x + 1) mod k = 0" by (rule int_mod_pos_eq [OF f _ assms]) simp
  ultimately show ?thesis by simp
qed

lemma mod_shift: "(y - k * n) mod k = y mod k" for y k n :: int
proof -
  have "(y - k * n) mod k = (y + k * (- n)) mod k" by simp
  also have "\<dots> = y mod k" by (rule mod_mult_self2)
  finally show ?thesis .
qed

lemma year_step:
  fixes y :: int
  shows "(y - 1968) div 4 = (y - 1969) div 4 + (if y mod 4 = 0 then 1 else 0)"
    and "(y - 1900) div 100 = (y - 1901) div 100 + (if y mod 100 = 0 then 1 else 0)"
    and "(y - 1600) div 400 = (y - 1601) div 400 + (if y mod 400 = 0 then 1 else 0)"
proof -
  have "(y - 1968) mod 4 = y mod 4" using mod_shift [of y 4 492] by simp
  with div_step [of 4 "y - 1969"]
  show "(y - 1968) div 4 = (y - 1969) div 4 + (if y mod 4 = 0 then 1 else 0)" by simp
  have "(y - 1900) mod 100 = y mod 100" using mod_shift [of y 100 19] by simp
  with div_step [of 100 "y - 1901"]
  show "(y - 1900) div 100 = (y - 1901) div 100 + (if y mod 100 = 0 then 1 else 0)" by simp
  have "(y - 1600) mod 400 = y mod 400" using mod_shift [of y 400 4] by simp
  with div_step [of 400 "y - 1601"]
  show "(y - 1600) div 400 = (y - 1601) div 400 + (if y mod 400 = 0 then 1 else 0)" by simp
qed

lemma leap_nesting:
  fixes y :: int
  shows "y mod 100 = 0 \<Longrightarrow> y mod 4 = 0" and "y mod 400 = 0 \<Longrightarrow> y mod 100 = 0"
proof -
  have "y mod 100 mod 4 = y mod 4" by (rule mod_mod_cancel) simp
  then show "y mod 100 = 0 \<Longrightarrow> y mod 4 = 0" by simp
  have "y mod 400 mod 100 = y mod 100" by (rule mod_mod_cancel) simp
  then show "y mod 400 = 0 \<Longrightarrow> y mod 100 = 0" by simp
qed

lemma DayFromYear_Suc: "DayFromYear (y + 1) = DayFromYear y + DaysInYear y"
proof -
  have "DayFromYear (y + 1) =
        365 * (y - 1969) + (y - 1968) div 4 - (y - 1900) div 100 + (y - 1600) div 400"
    by (simp add: DayFromYear_def)
  also have "\<dots> = DayFromYear y + 365 + (if y mod 4 = 0 then 1 else 0)
        - (if y mod 100 = 0 then 1 else 0) + (if y mod 400 = 0 then 1 else 0)"
    unfolding year_step DayFromYear_def by simp
  also have "\<dots> = DayFromYear y + DaysInYear y"
    using leap_nesting [of y] by (auto simp: DaysInYear_def)
  finally show ?thesis .
qed

lemma div_lower: "0 < k \<Longrightarrow> x - (k - 1) \<le> k * (x div k)" for x k :: int
proof -
  assume k: "0 < k"
  have "k * (x div k) + x mod k = x" by simp
  moreover from k have "x mod k < k" by simp
  ultimately show ?thesis by linarith
qed

lemma div_upper: "0 < k \<Longrightarrow> k * (x div k) \<le> x" for x k :: int
proof -
  assume k: "0 < k"
  have "k * (x div k) + x mod k = x" by simp
  moreover from k have "0 \<le> x mod k" by simp
  ultimately show ?thesis by linarith
qed

lemma DayFromYear_upper: "400 * DayFromYear y \<le> 146097 * y - 287810501"
proof -
  define a where "a = (y - 1969) div 4"
  define b where "b = (y - 1901) div 100"
  define c where "c = (y - 1601) div 400"
  have "4 * a \<le> y - 1969" unfolding a_def by (rule div_upper) simp
  moreover have "y - 1901 - (100 - 1) \<le> 100 * b" unfolding b_def by (rule div_lower) simp
  moreover have "400 * c \<le> y - 1601" unfolding c_def by (rule div_upper) simp
  moreover have "400 * DayFromYear y = 146000 * y - 287620000 + 400 * a - 400 * b + 400 * c"
    by (simp add: DayFromYear_def a_def b_def c_def)
  ultimately show ?thesis by linarith
qed

lemma DayFromYear_lower: "146097 * y - 287811596 \<le> 400 * DayFromYear y"
proof -
  define a where "a = (y - 1969) div 4"
  define b where "b = (y - 1901) div 100"
  define c where "c = (y - 1601) div 400"
  have "y - 1969 - (4 - 1) \<le> 4 * a" unfolding a_def by (rule div_lower) simp
  moreover have "100 * b \<le> y - 1901" unfolding b_def by (rule div_upper) simp
  moreover have "y - 1601 - (400 - 1) \<le> 400 * c" unfolding c_def by (rule div_lower) simp
  moreover have "400 * DayFromYear y = 146000 * y - 287620000 + 400 * a - 400 * b + 400 * c"
    by (simp add: DayFromYear_def a_def b_def c_def)
  ultimately show ?thesis by linarith
qed

lemma year_estimate:
  fixes d :: int
  defines "y \<equiv> 1970 + (400 * d) div 146097"
  shows "146097 * y - 287811090 \<le> 400 * d" and "400 * d < 146097 * y - 287664993"
proof -
  define q where "q = (400 * d) div 146097"
  have y: "y = 1970 + q" by (simp add: y_def q_def)
  have "146097 * q \<le> 400 * d" unfolding q_def by (rule div_upper) simp
  moreover have "146097 * y = 287811090 + 146097 * q" by (simp add: y)
  ultimately show "146097 * y - 287811090 \<le> 400 * d" by linarith
  have "400 * d - (146097 - 1) \<le> 146097 * q" unfolding q_def by (rule div_lower) simp
  moreover have "146097 * y = 287811090 + 146097 * q" by (simp add: y)
  ultimately show "400 * d < 146097 * y - 287664993" by linarith
qed

lemma YearFromDay_bounds:
  "DayFromYear (YearFromDay d) \<le> d \<and> d < DayFromYear (YearFromDay d + 1)"
proof -
  define y where "y = 1970 + (400 * d) div 146097"
  note e = year_estimate [of d, folded y_def]
  show ?thesis
  proof (cases "d < DayFromYear y")
    case True
    then have r: "YearFromDay d = y - 1" by (simp add: YearFromDay_def y_def)
    define u where "u = DayFromYear (y - 1)"
    have "146097 * (y - 1) = 146097 * y - 146097" by simp
    with DayFromYear_upper [of "y - 1", folded u_def] e have "u \<le> d" by linarith
    then have "DayFromYear (y - 1) \<le> d" by (simp only: u_def)
    with True show ?thesis by (simp add: r)
  next
    case False
    note nlt = this
    show ?thesis
    proof (cases "DayFromYear (y + 1) \<le> d")
      case True
      with nlt have r: "YearFromDay d = y + 1" by (simp add: YearFromDay_def y_def)
      define u where "u = DayFromYear (y + 1 + 1)"
      have "146097 * (y + 1 + 1) = 146097 * y + 292194" by simp
      with DayFromYear_lower [of "y + 1 + 1", folded u_def] e have "d < u" by linarith
      then have "d < DayFromYear (y + 1 + 1)" by (simp only: u_def)
      with True show ?thesis by (simp add: r)
    next
      case False
      with nlt have r: "YearFromDay d = y" by (simp add: YearFromDay_def y_def)
      from False nlt show ?thesis by (simp add: r)
    qed
  qed
qed

lemma DayWithinYear_bounds:
  "0 \<le> DayWithinYear t \<and> DayWithinYear t < 365 + InLeapYear t"
proof -
  let ?y = "YearFromDay (Day t)"
  from YearFromDay_bounds [of "Day t"] DayFromYear_Suc [of ?y]
  have "0 \<le> Day t - DayFromYear ?y" and "Day t - DayFromYear ?y < DaysInYear ?y" by simp_all
  moreover have "DaysInYear ?y = 365 + (if DaysInYear ?y = 366 then 1 else 0)"
    by (simp add: DaysInYear_def)
  ultimately show ?thesis
    by (simp add: DayWithinYear_def InLeapYear_def YearFromTime_def)
qed

lemma InLeapYear_cases: "InLeapYear t = 0 \<or> InLeapYear t = 1"
  by (simp add: InLeapYear_def)

lemma monthOfDay_le: "monthOfDay d l \<le> 11"
  by (simp add: monthOfDay_def)

lemma dateOfDay_bounds:
  assumes "0 \<le> d" and "d < 365 + l" and "l = 0 \<or> l = 1"
  shows "1 \<le> dateOfDay d l \<and> dateOfDay d l \<le> 31"
  using assms unfolding dateOfDay_def monthOfDay_def Let_def
  by (auto split: if_splits)

lemma MonthFromTime_bounds: "1 \<le> MonthFromTime t + 1 \<and> MonthFromTime t + 1 \<le> 12"
  using monthOfDay_le [of "DayWithinYear t" "InLeapYear t"] by (simp add: MonthFromTime_def)

lemma DateFromTime_bounds: "1 \<le> DateFromTime t \<and> DateFromTime t \<le> 31"
  using dateOfDay_bounds [of "DayWithinYear t" "InLeapYear t"] DayWithinYear_bounds [of t]
    InLeapYear_cases [of t]
  unfolding DateFromTime_def by linarith

lemma YearFromDay_estimate:
  "1970 + (400 * d) div 146097 - 1 \<le> YearFromDay d \<and>
   YearFromDay d \<le> 1970 + (400 * d) div 146097 + 1"
  by (simp add: YearFromDay_def Let_def)

lemma YearFromTime_range:
  assumes "\<bar>t\<bar> \<le> 8640000000000000"
  shows "\<bar>YearFromTime t\<bar> < 1000000"
proof -
  define d where "d = Day t"
  define y where "y = 1970 + (400 * d) div 146097"
  define z where "z = YearFromDay d"
  have "86400000 * d \<le> t" unfolding d_def Day_def by (rule div_upper) simp
  moreover have "t - (86400000 - 1) \<le> 86400000 * d"
    unfolding d_def Day_def by (rule div_lower) simp
  ultimately have "- 100000000 \<le> d" and "d \<le> 100000000"
    using assms by linarith+
  with year_estimate [of d, folded y_def] have "- 300000 \<le> y" and "y \<le> 300000"
    by linarith+
  with YearFromDay_estimate [of d, folded y_def z_def] have "\<bar>z\<bar> < 1000000"
    by linarith
  then show ?thesis by (simp only: YearFromTime_def d_def z_def)
qed

lemma decimal_digits: "list_all isDigit (decimal n)"
proof (induction n rule: decimal.induct)
  case (1 n)
  show ?case
  proof (cases "n < 10")
    case True
    then show ?thesis by (simp add: decimal.simps isDigit_def)
  next
    case False
    have "n mod 10 \<le> 9" by arith
    then have "isDigit (48 + n mod 10)" by (simp add: isDigit_def)
    with False 1 show ?thesis by (subst decimal.simps) simp
  qed
qed

lemma decimal_length: "n < 10 ^ k \<Longrightarrow> 0 < k \<Longrightarrow> length (decimal n) \<le> k"
proof (induction n arbitrary: k rule: decimal.induct)
  case (1 n)
  show ?case
  proof (cases "n < 10")
    case True
    with 1(3) show ?thesis by (simp add: decimal.simps)
  next
    case False
    with 1(2) have k: "1 < k" by (cases "k = 1") (use 1(3) in auto)
    then obtain j where j: "k = Suc j" "0 < j" by (cases k) auto
    with 1(2) have "n div 10 < 10 ^ j" by (simp add: less_mult_imp_div_less mult.commute)
    with 1(1) [OF False this j(2)] False j show ?thesis
      by (subst decimal.simps) simp
  qed
qed

lemma padStart0_length: "length s \<le> k \<Longrightarrow> length (padStart0 k s) = k"
  by (simp add: padStart0_def)

lemma padStart0_digits: "list_all isDigit s \<Longrightarrow> list_all isDigit (padStart0 k s)"
  by (auto simp: padStart0_def isDigit_def list_all_iff)

lemma isoYear_shape:
  assumes "\<bar>y\<bar> < 1000000"
  shows "(length (isoYear y) = 4 \<and> list_all isDigit (isoYear y)) \<or>
         (\<exists>sg ds. isoYear y = sg # ds \<and> (sg = 43 \<or> sg = 45) \<and> length ds = 6 \<and> list_all isDigit ds)"
proof (cases "0 \<le> y \<and> y \<le> 9999")
  case True
  then have "nat y < 10 ^ 4" by auto
  then have "length (decimal (nat y)) \<le> 4" by (rule decimal_length) simp
  with True show ?thesis
    by (simp add: isoYear_def padStart0_length padStart0_digits decimal_digits)
next
  case False
  define ds where "ds = padStart0 6 (decimal (nat \<bar>y\<bar>))"
  from assms have "nat \<bar>y\<bar> < 10 ^ 6" by auto
  then have "length (decimal (nat \<bar>y\<bar>)) \<le> 6" by (rule decimal_length) simp
  then have len: "length ds = 6" unfolding ds_def by (rule padStart0_length)
  have dig: "list_all isDigit ds" unfolding ds_def by (rule padStart0_digits [OF decimal_digits])
  from False have "isoYear y = (if y < 0 then js ''-'' else js ''+'') @ ds"
    unfolding ds_def isoYear_def by (simp only: if_False)
  then have "isoYear y = (if y < 0 then 45 else 43) # ds" by (simp add: js_def)
  with len dig show ?thesis by auto
qed

lemma monthDay_shape:
  assumes "1 \<le> m" "m \<le> 12" "1 \<le> d" "d \<le> 31"
  shows "isMonthDay (js ''-'' @ padStart0 2 (decimal m) @ js ''-'' @ padStart0 2 (decimal d))"
proof -
  from assms have "m < 100" "d < 100" by simp_all
  then have r: "padStart0 2 (decimal m) = [48 + m div 10, 48 + m mod 10]"
    "padStart0 2 (decimal d) = [48 + d div 10, 48 + d mod 10]"
    by (simp_all add: decimal_two_digits)
  have "m div 10 \<le> 9" "d div 10 \<le> 9" "m mod 10 \<le> 9" "d mod 10 \<le> 9"
    using assms by arith+
  then have dg: "isDigit (48 + m div 10)" "isDigit (48 + m mod 10)"
    "isDigit (48 + d div 10)" "isDigit (48 + d mod 10)"
    by (simp_all add: isDigit_def)
  have n: "Number_digits [48 + m div 10, 48 + m mod 10] = m"
    "Number_digits [48 + d div 10, 48 + d mod 10] = d"
    by (simp_all add: Number_digits_def)
  have "js ''-'' @ padStart0 2 (decimal m) @ js ''-'' @ padStart0 2 (decimal d) =
        [45, 48 + m div 10, 48 + m mod 10, 45, 48 + d div 10, 48 + d mod 10]"
    by (simp add: r js_def)
  then show ?thesis
    using dg assms by (simp add: n)
qed

lemma splitT0_prefix: "list_all (\<lambda>c. c \<noteq> 84) p \<Longrightarrow> splitT0 (p @ 84 # r) = p"
  by (simp add: splitT0_def list_all_iff takeWhile_tail)

lemma digit_not_T: "isDigit c \<Longrightarrow> c \<noteq> 84"
  by (auto simp: isDigit_def)

lemma isMonthDay_length: "isMonthDay r \<Longrightarrow> length r = 6 \<and> list_all (\<lambda>c. c \<noteq> 84) r"
  by (induction r rule: isMonthDay.induct) (auto simp: isDigit_def)

lemma isoDate_canonical:
  assumes "\<bar>t\<bar> \<le> 8640000000000000"
  shows "isCanonicalDate (splitT0 (toISOString t))"
proof -
  define Y where "Y = isoYear (YearFromTime t)"
  define md where "md = js ''-'' @ padStart0 2 (decimal (MonthFromTime t + 1)) @ js ''-'' @
    padStart0 2 (decimal (DateFromTime t))"
  have md: "isMonthDay md"
    unfolding md_def using MonthFromTime_bounds [of t] DateFromTime_bounds [of t]
    by (intro monthDay_shape) simp_all
  note mdl = isMonthDay_length [OF md]
  obtain rest where iso: "toISOString t = (Y @ md) @ 84 # rest"
    by (simp add: toISOString_def Y_def md_def js_def)
  from isoYear_shape [OF YearFromTime_range [OF assms], folded Y_def]
  show ?thesis
  proof
    assume y: "length Y = 4 \<and> list_all isDigit Y"
    then have "list_all (\<lambda>c. c \<noteq> 84) Y" by (auto simp: list_all_iff dest: digit_not_T)
    with mdl have "splitT0 (toISOString t) = Y @ md"
      unfolding iso by (intro splitT0_prefix) simp
    with y md mdl show ?thesis by (simp add: isCanonicalDate_def)
  next
    assume "\<exists>sg ds. Y = sg # ds \<and> (sg = 43 \<or> sg = 45) \<and> length ds = 6 \<and> list_all isDigit ds"
    then obtain sg ds where y: "Y = sg # ds" "sg = 43 \<or> sg = 45" "length ds = 6" "list_all isDigit ds"
      by blast
    then have "list_all (\<lambda>c. c \<noteq> 84) Y" by (auto simp: list_all_iff dest: digit_not_T)
    with mdl have "splitT0 (toISOString t) = Y @ md"
      unfolding iso by (intro splitT0_prefix) simp
    with y md mdl show ?thesis by (auto simp: isCanonicalDate_def js_def)
  qed
qed

section \<open>Properties of the Event hook\<close>

lemma deriveSlug_frame: "deriveSlug h m e = e\<lparr>slug := slug (deriveSlug h m e)\<rparr>"
  by (simp add: deriveSlug_def)

lemma normalizeDate_frame: "normalizeDate h m e = e\<lparr>date := date (normalizeDate h m e)\<rparr>"
  by (simp add: normalizeDate_def split: option.splits)

lemma normalizeTimeField_frame:
  "normalizeTimeField h m e = e\<lparr>time := time (normalizeTimeField h m e)\<rparr>"
  by (simp add: normalizeTimeField_def split: option.splits jsvalue.splits)

lemma pre_save_frame:
  "fst (EventSchema_pre_save h m e) =
     e\<lparr>slug := slug (deriveSlug h m e),
       date := date (normalizeDate h m (deriveSlug h m e)),
       time := time (normalizeTimeField h m (normalizeDate h m (deriveSlug h m e)))\<rparr>"
proof -
  define e1 where "e1 = deriveSlug h m e"
  define e2 where "e2 = normalizeDate h m e1"
  define e3 where "e3 = normalizeTimeField h m e2"
  have 1: "e1 = e\<lparr>slug := slug e1\<rparr>" unfolding e1_def by (rule deriveSlug_frame)
  have 2: "e2 = e1\<lparr>date := date e2\<rparr>" unfolding e2_def by (rule normalizeDate_frame)
  have 3: "e3 = e2\<lparr>time := time e3\<rparr>" unfolding e3_def by (rule normalizeTimeField_frame)
  have "e3 = e2\<lparr>time := time e3\<rparr>" by (rule 3)
  also have "\<dots> = e1\<lparr>date := date e2, time := time e3\<rparr>" by (subst 2) simp
  also have "\<dots> = e\<lparr>slug := slug e1, date := date e2, time := time e3\<rparr>" by (subst 1) simp
  finally show ?thesis
    by (simp add: EventSchema_pre_save_def Let_def e1_def e2_def e3_def)
qed

lemma pre_save_slug: "slug (fst (EventSchema_pre_save h m e)) = slug (deriveSlug h m e)"
  by (subst pre_save_frame) simp

lemma pre_save_verdict:
  "snd (EventSchema_pre_save h m e) = validateEvent (fst (EventSchema_pre_save h m e))"
  by (simp add: EventSchema_pre_save_def Let_def)

text \<open>
  C4. When the title is not among the changed fields and the document has a slug (a
  non-empty string), the hook leaves the slug as it is, whatever else changed and whether
  or not the validation that follows passes.
\<close>

theorem slug_sticky:
  assumes "\<not> isModified ''title''" and "slug this = Some s" and "s \<noteq> []"
  shows "slug (fst (EventSchema_pre_save host isModified this)) = Some s"
  using assms by (simp add: pre_save_slug deriveSlug_def)

lemma checkRequired_Some:
  "\<exists>f\<in>set fs. blank (getField e f) \<Longrightarrow>
     \<exists>f\<in>set fs. blank (getField e f) \<and>
       checkRequired e fs = Some (Error (js f @ js '' is required and cannot be empty''))"
  by (induction fs) auto

lemma checkRequired_None:
  "checkRequired e fs = None \<longleftrightarrow> (\<forall>f\<in>set fs. \<not> blank (getField e f))"
  by (induction fs) auto

lemma pre_save_kept:
  "agenda (fst (EventSchema_pre_save h m e)) = agenda e"
  "tags (fst (EventSchema_pre_save h m e)) = tags e"
  "f \<noteq> ''date'' \<Longrightarrow> f \<noteq> ''time'' \<Longrightarrow>
     getField (fst (EventSchema_pre_save h m e)) f = getField e f"
  by (subst pre_save_frame, simp add: getField_def)+

lemma validateEvent_cases:
  "validateEvent e =
     (if \<exists>f\<in>set requiredStringFields. blank (getField e f)
      then checkRequired e requiredStringFields
      else if emptyArray (agenda e)
      then Some (Error (js ''agenda must be a non-empty array of strings''))
      else if emptyArray (tags e)
      then Some (Error (js ''tags must be a non-empty array of strings''))
      else None)"
proof (cases "\<exists>f\<in>set requiredStringFields. blank (getField e f)")
  case True
  from checkRequired_Some [OF True] show ?thesis
    using True by (auto simp: validateEvent_def)
next
  case False
  then have "checkRequired e requiredStringFields = None"
    by (simp add: checkRequired_None)
  with False show ?thesis by (simp add: validateEvent_def checkArrays_def)
qed

lemma validateEvent_blank:
  assumes "\<exists>f\<in>set requiredStringFields. blank (getField e f)"
  shows "\<exists>f\<in>set requiredStringFields. blank (getField e f) \<and>
           validateEvent e = Some (Error (js f @ js '' is required and cannot be empty''))"
  using checkRequired_Some [OF assms] assms by (simp add: validateEvent_cases)

lemma validateEvent_None:
  "validateEvent e = None \<longleftrightarrow>
     (\<forall>f\<in>set requiredStringFields. \<not> blank (getField e f)) \<and>
     \<not> emptyArray (agenda e) \<and> \<not> emptyArray (tags e)"
proof (cases "\<exists>f\<in>set requiredStringFields. blank (getField e f)")
  case True
  from validateEvent_blank [OF True] True show ?thesis by auto
next
  case False
  then show ?thesis by (simp add: validateEvent_cases)
qed

lemma deriveSlug_agenda: "deriveSlug h m (e\<lparr>agenda := a\<rparr>) = (deriveSlug h m e)\<lparr>agenda := a\<rparr>"
  by (simp add: deriveSlug_def)

lemma normalizeDate_agenda:
  "normalizeDate h m (e\<lparr>agenda := a\<rparr>) = (normalizeDate h m e)\<lparr>agenda := a\<rparr>"
  by (simp add: normalizeDate_def split: option.splits)

lemma normalizeTimeField_agenda:
  "normalizeTimeField h m (e\<lparr>agenda := a\<rparr>) = (normalizeTimeField h m e)\<lparr>agenda := a\<rparr>"
  by (simp add: normalizeTimeField_def split: option.splits jsvalue.splits)

lemma pre_save_agenda_update:
  "fst (EventSchema_pre_save h m (e\<lparr>agenda := a\<rparr>)) = (fst (EventSchema_pre_save h m e))\<lparr>agenda := a\<rparr>"
  by (simp add: EventSchema_pre_save_def Let_def deriveSlug_agenda normalizeDate_agenda
      normalizeTimeField_agenda)

lemma getField_agenda_update: "getField (e\<lparr>agenda := a\<rparr>) f = getField e f"
  by (simp add: getField_def)

lemma agenda_one_then_empty:
  assumes "snd (EventSchema_pre_save h m (e\<lparr>agenda := Some [x]\<rparr>)) = None"
  shows "snd (EventSchema_pre_save h m (e\<lparr>agenda := Some []\<rparr>)) =
           Some (Error (js ''agenda must be a non-empty array of strings''))"
proof -
  let ?e' = "fst (EventSchema_pre_save h m e)"
  from assms have "validateEvent (?e'\<lparr>agenda := Some [x]\<rparr>) = None"
    by (simp add: pre_save_verdict pre_save_agenda_update)
  then have "\<forall>f\<in>set requiredStringFields. \<not> blank (getField ?e' f)"
    by (simp add: validateEvent_None getField_agenda_update)
  then have "validateEvent (?e'\<lparr>agenda := Some []\<rparr>) =
      Some (Error (js ''agenda must be a non-empty array of strings''))"
    by (simp add: validateEvent_cases getField_agenda_update)
  then show ?thesis by (simp add: pre_save_verdict pre_save_agenda_update)
qed

text \<open>
  C6. The hook leaves every required field but \<open>date\<close> and \<open>time\<close>, and both arrays,
  as they were, and then checks the document. If one of the eleven required string
  fields is absent or blank after trimming, the write is rejected with the error that
  names such a field (the first in the order of the list). If none is, the write is
  rejected with the error naming \<open>agenda\<close> when \<open>agenda\<close> is not a non-empty array,
  with the error naming \<open>tags\<close> when \<open>tags\<close> is not, and passes otherwise. In
  particular a write that passes with one agenda item is rejected with the agenda error
  when the agenda is empty.
\<close>

theorem event_required_fields:
  "(case EventSchema_pre_save host isModified this of
      (this', verdict) \<Rightarrow>
        agenda this' = agenda this \<and> tags this' = tags this \<and>
        (\<forall>f. f \<noteq> ''date'' \<longrightarrow> f \<noteq> ''time'' \<longrightarrow> getField this' f = getField this f) \<and>
        ((\<exists>f\<in>set requiredStringFields. blank (getField this' f)) \<longrightarrow>
           (\<exists>f\<in>set requiredStringFields. blank (getField this' f) \<and>
              verdict = Some (Error (js f @ js '' is required and cannot be empty'')))) \<and>
        ((\<forall>f\<in>set requiredStringFields. \<not> blank (getField this' f)) \<longrightarrow>
           verdict =
             (if emptyArray (agenda this)
              then Some (Error (js ''agenda must be a non-empty array of strings''))
              else if emptyArray (tags this)
              then Some (Error (js ''tags must be a non-empty array of strings''))
              else None))) \<and>
   (snd (EventSchema_pre_save host isModified (this\<lparr>agenda := Some [item]\<rparr>)) = None \<longrightarrow>
      snd (EventSchema_pre_save host isModified (this\<lparr>agenda := Some []\<rparr>)) =
        Some (Error (js ''agenda must be a non-empty array of strings'')))"
proof -
  obtain this' verdict where r: "EventSchema_pre_save host isModified this = (this', verdict)"
    by (cases "EventSchema_pre_save host isModified this")
  then have t: "this' = fst (EventSchema_pre_save host isModified this)"
    and v: "verdict = validateEvent this'"
    using pre_save_verdict [of host isModified this] by simp_all
  have k: "agenda this' = agenda this" "tags this' = tags this"
    "\<forall>f. f \<noteq> ''date'' \<longrightarrow> f \<noteq> ''time'' \<longrightarrow> getField this' f = getField this f"
    unfolding t by (simp_all add: pre_save_kept)
  have b: "(\<exists>f\<in>set requiredStringFields. blank (getField this' f)) \<longrightarrow>
           (\<exists>f\<in>set requiredStringFields. blank (getField this' f) \<and>
              verdict = Some (Error (js f @ js '' is required and cannot be empty'')))"
    unfolding v using validateEvent_blank [of this'] by blast
  have a: "(\<forall>f\<in>set requiredStringFields. \<not> blank (getField this' f)) \<longrightarrow>
           verdict =
             (if emptyArray (agenda this)
              then Some (Error (js ''agenda must be a non-empty array of strings''))
              else if emptyArray (tags this)
              then Some (Error (js ''tags must be a non-empty array of strings''))
              else None)"
    unfolding v by (simp add: validateEvent_cases k)
  have p: "snd (EventSchema_pre_save host isModified (this\<lparr>agenda := Some [item]\<rparr>)) = None \<longrightarrow>
      snd (EventSchema_pre_save host isModified (this\<lparr>agenda := Some []\<rparr>)) =
        Some (Error (js ''agenda must be a non-empty array of strings''))"
    by (rule impI) (rule agenda_one_then_empty)
  show ?thesis
    unfolding r prod.case by (intro conjI k b a p)
qed

lemmas cal_defs = toISOString_def isoYear_def YearFromTime_def YearFromDay_def DayFromYear_def
  Day_def DayWithinYear_def InLeapYear_def DaysInYear_def MonthFromTime_def DateFromTime_def
  monthOfDay_def dateOfDay_def splitT0_def Let_def

lemmas event_defs = EventSchema_pre_save_def deriveSlug_def normalizeDate_def
  normalizeTimeField_def validateEvent_def checkArrays_def requiredStringFields_def
  getField_def newDate_def event0_def host0_def

lemma event0_passes: "snd (EventSchema_pre_save host0 (\<lambda>f. True) event0) = None"
  by (simp add: event_defs time_defs slugify_def toLowerCase_def isASCII_def lowerASCII_def replaceEach_def
      notSlugSource_def isLowerAZ_def isHyphen_def)

theorem slug_sticky_witness:
  "\<not> (\<lambda>f. f = ''date'') ''title'' \<and> slug event0 = Some (js ''my-slug'') \<and> js ''my-slug'' \<noteq> [] \<and>
   slug (fst (EventSchema_pre_save host1 (\<lambda>f. f = ''date'') (event0\<lparr>date := Some (js ''March 8, 2024'')\<rparr>)))
     = Some (js ''my-slug'')"
proof -
  have h: "\<not> (\<lambda>f. f = ''date'') ''title''" "js ''my-slug'' \<noteq> []"
    "slug (event0\<lparr>date := Some (js ''March 8, 2024'')\<rparr>) = Some (js ''my-slug'')"
    by (simp_all add: event0_def js_def)
  from slug_sticky [of "\<lambda>f. f = ''date''", OF h(1) h(3) h(2), of host1] h show ?thesis
    by (simp add: event0_def)
qed

theorem event_required_fields_witness:
  "snd (EventSchema_pre_save host0 (\<lambda>f. True) (event0\<lparr>agenda := Some [js ''intro'']\<rparr>)) = None \<and>
   snd (EventSchema_pre_save host0 (\<lambda>f. True) (event0\<lparr>agenda := Some []\<rparr>)) =
     Some (Error (js ''agenda must be a non-empty array of strings''))"
proof -
  have "event0\<lparr>agenda := Some [js ''intro'']\<rparr> = event0" by (simp add: event0_def)
  with event0_passes
  have 1: "snd (EventSchema_pre_save host0 (\<lambda>f. True) (event0\<lparr>agenda := Some [js ''intro'']\<rparr>)) = None"
    by simp
  from event_required_fields [where host = host0 and isModified = "\<lambda>f. True" and this = event0
      and item = "js ''intro''"] 1
  show ?thesis
    by blast
qed

lemma date_kept:
  "date (deriveSlug h m e) = date e"
  "date (normalizeTimeField h m e) = date e"
  by (simp_all add: deriveSlug_def normalizeTimeField_def split: option.splits jsvalue.splits)

lemma newDate_range: "newDate h d = Some t \<Longrightarrow> \<bar>t\<bar> \<le> 8640000000000000"
  by (simp add: newDate_def split: option.splits if_splits)

lemma normalizeDate_unparsed:
  "newDate h d = None \<Longrightarrow> date e = Some d \<Longrightarrow> normalizeDate h m e = e"
  by (simp add: normalizeDate_def)

lemma normalizeDate_unmodified: "\<not> m ''date'' \<Longrightarrow> normalizeDate h m e = e"
  by (simp add: normalizeDate_def split: option.splits)

lemma normalizeDate_parsed:
  "newDate h d = Some t \<Longrightarrow> date e = Some d \<Longrightarrow> m ''date'' \<Longrightarrow> d \<noteq> [] \<Longrightarrow>
     date (normalizeDate h m e) = Some (splitT0 (toISOString t))"
  by (simp add: normalizeDate_def)

lemma pre_save_date:
  "date (fst (EventSchema_pre_save h m e)) = date (normalizeDate h m (deriveSlug h m e))"
  by (simp add: EventSchema_pre_save_def Let_def date_kept)

lemma pre_save_unparsed:
  assumes "newDate h d = None" and "date e = Some d"
  shows "EventSchema_pre_save h m e = EventSchema_pre_save h (m(''date'' := False)) e"
proof -
  have s: "deriveSlug h (m(''date'' := False)) e = deriveSlug h m e"
    by (simp add: deriveSlug_def)
  from assms(2) have d: "date (deriveSlug h m e) = Some d" by (simp add: date_kept)
  have n: "normalizeDate h m (deriveSlug h m e) = deriveSlug h m e"
    by (rule normalizeDate_unparsed [OF assms(1) d])
  have n': "normalizeDate h (m(''date'' := False)) (deriveSlug h m e) = deriveSlug h m e"
    by (rule normalizeDate_unmodified) simp
  have t: "normalizeTimeField h (m(''date'' := False)) (deriveSlug h m e) =
           normalizeTimeField h m (deriveSlug h m e)"
    by (simp add: normalizeTimeField_def split: option.splits)
  show ?thesis
    by (simp add: EventSchema_pre_save_def Let_def s n n' t)
qed

text \<open>
  What the date block does for a non-empty date among the changed fields. When the date
  parses (\<^verbatim>\<open>new Date\<close> gives a valid date), the hook stores the date part of
  \<^verbatim>\<open>toISOString\<close>, the day of the parsed instant in UTC, which has the shape
  year-month-day. When it does not parse, the date stays exactly as given, and the hook
  does and answers what it does when the date is not among the changed fields at all,
  so the parse failure is no reason of its own for the write to fail.
\<close>

theorem date_normalization:
  assumes "isModified ''date''" and "date this = Some d" and "d \<noteq> []"
  shows "(case newDate host d of
            Some t \<Rightarrow>
              date (fst (EventSchema_pre_save host isModified this)) =
                Some (splitT0 (toISOString t)) \<and>
              isCanonicalDate (splitT0 (toISOString t))
          | None \<Rightarrow>
              date (fst (EventSchema_pre_save host isModified this)) = Some d \<and>
              EventSchema_pre_save host isModified this =
                EventSchema_pre_save host (isModified(''date'' := False)) this)"
proof (cases "newDate host d")
  case None
  from assms(2) have d: "date (deriveSlug host isModified this) = Some d" by (simp add: date_kept)
  from normalizeDate_unparsed [OF None d] d
  have "date (fst (EventSchema_pre_save host isModified this)) = Some d"
    by (simp add: pre_save_date)
  with pre_save_unparsed [OF None assms(2)] None show ?thesis by simp
next
  case (Some t)
  from assms(2) have d: "date (deriveSlug host isModified this) = Some d" by (simp add: date_kept)
  from normalizeDate_parsed [where m = isModified, OF Some d assms(1) assms(3)]
  have "date (fst (EventSchema_pre_save host isModified this)) = Some (splitT0 (toISOString t))"
    by (simp add: pre_save_date)
  with isoDate_canonical [OF newDate_range [OF Some]] Some show ?thesis by simp
qed

lemma iso_example: "splitT0 (toISOString 1709856000000) = js ''2024-03-08''"
  by (simp add: cal_defs padStart0_def decimal.simps js_def)

theorem date_normalization_witness:
  "date (fst (EventSchema_pre_save host1 (\<lambda>f. True) (event0\<lparr>date := Some (js ''March 8, 2024'')\<rparr>)))
     = Some (js ''2024-03-08'') \<and>
   isCanonicalDate (js ''2024-03-08'') \<and>
   date (fst (EventSchema_pre_save host1 (\<lambda>f. True) event0)) = Some (js ''someday'') \<and>
   EventSchema_pre_save host1 (\<lambda>f. True) event0 =
     EventSchema_pre_save host1 ((\<lambda>f. True)(''date'' := False)) event0"
proof -
  have p: "newDate host1 (js ''March 8, 2024'') = Some 1709856000000"
    by (simp add: newDate_def host1_def)
  have u: "newDate host1 (js ''someday'') = None"
    by (simp add: newDate_def host1_def js_def)
  have n: "js ''March 8, 2024'' \<noteq> []" "js ''someday'' \<noteq> []" by (simp_all add: js_def)
  have "date (event0\<lparr>date := Some (js ''March 8, 2024'')\<rparr>) = Some (js ''March 8, 2024'')"
    by simp
  from date_normalization [of "\<lambda>f. True", OF TrueI this n(1), of host1]
  have 1: "date (fst (EventSchema_pre_save host1 (\<lambda>f. True) (event0\<lparr>date := Some (js ''March 8, 2024'')\<rparr>)))
     = Some (js ''2024-03-08'') \<and> isCanonicalDate (js ''2024-03-08'')"
    by (simp add: p iso_example)
  have "date event0 = Some (js ''someday'')" by (simp add: event0_def)
  from date_normalization [of "\<lambda>f. True", OF TrueI this n(2), of host1]
  have 2: "date (fst (EventSchema_pre_save host1 (\<lambda>f. True) event0)) = Some (js ''someday'') \<and>
   EventSchema_pre_save host1 (\<lambda>f. True) event0 =
     EventSchema_pre_save host1 ((\<lambda>f. True)(''date'' := False)) event0"
    unfolding u option.case .
  from 1 2 show ?thesis by blast
qed

subsection \<open>The day stored for a local date\<close>

lemma iso_example_utc: "splitT0 (toISOString 1709823600000) = js ''2024-03-07''"
  by (simp add: cal_defs padStart0_def decimal.simps js_def)

lemma tokyo_parse:
  "newDate hostTokyo (js ''March 8, 2024'') = Some 1709823600000"
  "newDate hostTokyo (js ''2024-03-08T00:00:00'') = Some 1709823600000"
  by (simp_all add: newDate_def hostTokyo_def)

lemma pre_save_date_only:
  assumes "newDate h d = Some t" and "d \<noteq> []" and "present (slug e)"
  shows "EventSchema_pre_save h (\<lambda>f. f = ''date'') (e\<lparr>date := Some d\<rparr>) =
     (e\<lparr>date := Some (splitT0 (toISOString t))\<rparr>, validateEvent (e\<lparr>date := Some (splitT0 (toISOString t))\<rparr>))"
proof -
  have 1: "deriveSlug h (\<lambda>f. f = ''date'') (e\<lparr>date := Some d\<rparr>) = e\<lparr>date := Some d\<rparr>"
    using assms(3) by (simp add: deriveSlug_def)
  have 2: "normalizeDate h (\<lambda>f. f = ''date'') (e\<lparr>date := Some d\<rparr>) =
      e\<lparr>date := Some (splitT0 (toISOString t))\<rparr>"
    using assms(1,2) by (simp add: normalizeDate_def)
  have 3: "normalizeTimeField h (\<lambda>f. f = ''date'') e' = e'" for e'
    by (simp add: normalizeTimeField_def split: option.splits)
  show ?thesis by (simp add: EventSchema_pre_save_def Let_def 1 2 3)
qed

lemma event0_date_valid: "validateEvent (event0\<lparr>date := Some (js ''2024-03-07'')\<rparr>) = None"
  by (simp add: validateEvent_def checkArrays_def requiredStringFields_def
      getField_def event0_def js_def trim_def isWhiteSpace_def)

text \<open>
  C9, where the code departs from it. The date is parsed by the host, which reads a date
  without an offset as local time, and is written back by \<^verbatim>\<open>toISOString\<close>, which is
  in UTC. On a host nine hours ahead of UTC the date \<^verbatim>\<open>March 8, 2024\<close> is midnight of
  the 8th of March there, 15:00 of the 7th in UTC: the hook stores \<^verbatim>\<open>2024-03-07\<close>,
  the day before the date given, and lets the write go on. The same happens to
  \<^verbatim>\<open>2024-03-08T00:00:00\<close>.
\<close>

theorem date_day_shifted:
  "Date_parse hostTokyo (js ''March 8, 2024'') = Some 1709823600000 \<and>
   splitT0 (toISOString (1709823600000 + LocalTZA hostTokyo 1709823600000)) = js ''2024-03-08'' \<and>
   EventSchema_pre_save hostTokyo (\<lambda>f. f = ''date'') (event0\<lparr>date := Some (js ''March 8, 2024'')\<rparr>) =
     (event0\<lparr>date := Some (js ''2024-03-07'')\<rparr>, None) \<and>
   EventSchema_pre_save hostTokyo (\<lambda>f. f = ''date'') (event0\<lparr>date := Some (js ''2024-03-08T00:00:00'')\<rparr>) =
     (event0\<lparr>date := Some (js ''2024-03-07'')\<rparr>, None)"
proof -
  have s: "present (slug event0)" by (simp add: event0_def js_def)
  have n: "js ''March 8, 2024'' \<noteq> []" "js ''2024-03-08T00:00:00'' \<noteq> []" by (simp_all add: js_def)
  have 1: "Date_parse hostTokyo (js ''March 8, 2024'') = Some 1709823600000"
    by (simp add: hostTokyo_def)
  have 2: "splitT0 (toISOString (1709823600000 + LocalTZA hostTokyo 1709823600000)) = js ''2024-03-08''"
    by (simp add: hostTokyo_def iso_example)
  have 3: "EventSchema_pre_save hostTokyo (\<lambda>f. f = ''date'') (event0\<lparr>date := Some (js ''March 8, 2024'')\<rparr>) =
     (event0\<lparr>date := Some (js ''2024-03-07'')\<rparr>, None)"
    by (simp only: pre_save_date_only [OF tokyo_parse(1) n(1) s] iso_example_utc event0_date_valid)
  have 4: "EventSchema_pre_save hostTokyo (\<lambda>f. f = ''date'') (event0\<lparr>date := Some (js ''2024-03-08T00:00:00'')\<rparr>) =
     (event0\<lparr>date := Some (js ''2024-03-07'')\<rparr>, None)"
    by (simp only: pre_save_date_only [OF tokyo_parse(2) n(2) s] iso_example_utc event0_date_valid)
  from 1 2 3 4 show ?thesis by (intro conjI)
qed

section \<open>Matching by derivatives is matching\<close>

lemma nullable_lang: "nullable r \<longleftrightarrow> [] \<in> lang r"
  by (induction r) (auto intro: star.star_empty)

lemma star_Cons:
  "c # w \<in> star A \<longleftrightarrow> (\<exists>u v. w = u @ v \<and> c # u \<in> A \<and> v \<in> star A)"
proof
  have "x \<in> star A \<Longrightarrow> x = c # w \<Longrightarrow> \<exists>u v. w = u @ v \<and> c # u \<in> A \<and> v \<in> star A" for x
  proof (induction x rule: star.induct)
    case star_empty
    then show ?case by simp
  next
    case (star_step u v)
    show ?case
    proof (cases u)
      case Nil
      with star_step.prems have "v = c # w" by simp
      then show ?thesis by (rule star_step.IH)
    next
      case (Cons a u')
      with star_step.prems have "a = c" "w = u' @ v" by simp_all
      with Cons star_step.hyps show ?thesis by blast
    qed
  qed
  then show "c # w \<in> star A \<Longrightarrow> \<exists>u v. w = u @ v \<and> c # u \<in> A \<and> v \<in> star A" by blast
next
  assume "\<exists>u v. w = u @ v \<and> c # u \<in> A \<and> v \<in> star A"
  then obtain u v where w: "w = u @ v" and "c # u \<in> A" "v \<in> star A" by blast
  then have "(c # u) @ v \<in> star A" by (intro star.star_step)
  with w show "c # w \<in> star A" by simp
qed

lemma lang_Seq_Cons:
  "c # w \<in> lang (Seq r s) \<longleftrightarrow>
     (\<exists>u v. w = u @ v \<and> c # u \<in> lang r \<and> v \<in> lang s) \<or> ([] \<in> lang r \<and> c # w \<in> lang s)"
proof
  assume "c # w \<in> lang (Seq r s)"
  then obtain u v where uv: "c # w = u @ v" "u \<in> lang r" "v \<in> lang s" by auto
  show "(\<exists>u v. w = u @ v \<and> c # u \<in> lang r \<and> v \<in> lang s) \<or> ([] \<in> lang r \<and> c # w \<in> lang s)"
  proof (cases u)
    case Nil
    with uv show ?thesis by simp
  next
    case (Cons a u')
    with uv have "a = c" "w = u' @ v" by simp_all
    with Cons uv show ?thesis by blast
  qed
next
  assume "(\<exists>u v. w = u @ v \<and> c # u \<in> lang r \<and> v \<in> lang s) \<or> ([] \<in> lang r \<and> c # w \<in> lang s)"
  then show "c # w \<in> lang (Seq r s)"
  proof
    assume "\<exists>u v. w = u @ v \<and> c # u \<in> lang r \<and> v \<in> lang s"
    then obtain u v where "w = u @ v" "c # u \<in> lang r" "v \<in> lang s" by blast
    then have "c # w = (c # u) @ v \<and> c # u \<in> lang r \<and> v \<in> lang s" by simp
    then show ?thesis unfolding lang.simps by blast
  next
    assume "[] \<in> lang r \<and> c # w \<in> lang s"
    then have "c # w = [] @ (c # w) \<and> [] \<in> lang r \<and> c # w \<in> lang s" by simp
    then show ?thesis unfolding lang.simps by blast
  qed
qed

lemma lang_deriv: "w \<in> lang (deriv c r) \<longleftrightarrow> c # w \<in> lang r"
proof (induction r arbitrary: w)
  case NoMatch
  show ?case by simp
next
  case EmptyStr
  show ?case by simp
next
  case (Class C)
  show ?case by simp
next
  case (Alt r s)
  then show ?case by simp
next
  case (Seq r s)
  have "w \<in> lang (deriv c (Seq r s)) \<longleftrightarrow>
      (\<exists>u v. w = u @ v \<and> u \<in> lang (deriv c r) \<and> v \<in> lang s) \<or>
      (nullable r \<and> w \<in> lang (deriv c s))"
    by auto
  also have "\<dots> \<longleftrightarrow>
      (\<exists>u v. w = u @ v \<and> c # u \<in> lang r \<and> v \<in> lang s) \<or> ([] \<in> lang r \<and> c # w \<in> lang s)"
    by (simp only: Seq.IH nullable_lang)
  also have "\<dots> \<longleftrightarrow> c # w \<in> lang (Seq r s)" by (rule lang_Seq_Cons [symmetric])
  finally show ?case .
next
  case (Star r)
  have "w \<in> lang (deriv c (Star r)) \<longleftrightarrow>
      (\<exists>u v. w = u @ v \<and> u \<in> lang (deriv c r) \<and> v \<in> star (lang r))"
    by auto
  also have "\<dots> \<longleftrightarrow> (\<exists>u v. w = u @ v \<and> c # u \<in> lang r \<and> v \<in> star (lang r))"
    by (simp only: Star.IH)
  also have "\<dots> \<longleftrightarrow> c # w \<in> lang (Star r)" by (simp only: lang.simps star_Cons)
  finally show ?case .
qed

lemma regexTest_lang: "regexTest r s \<longleftrightarrow> s \<in> lang r"
proof -
  have "nullable (foldl (\<lambda>r c. deriv c r) r s) \<longleftrightarrow> s \<in> lang r"
    by (induction s arbitrary: r) (simp_all add: nullable_lang lang_deriv)
  then show ?thesis by (simp add: regexTest_def)
qed

lemma lang_Seq_iff: "w \<in> lang (Seq r s) \<longleftrightarrow> (\<exists>u v. w = u @ v \<and> u \<in> lang r \<and> v \<in> lang s)"
  by simp

lemma lang_Plus_iff:
  "w \<in> lang (Plus r) \<longleftrightarrow> (\<exists>u v. w = u @ v \<and> u \<in> lang r \<and> v \<in> star (lang r))"
  by (simp add: Plus_def)

lemma lang_Alt_iff: "w \<in> lang (Alt r s) \<longleftrightarrow> w \<in> lang r \<or> w \<in> lang s"
  by simp

lemma lang_isChar: "w \<in> lang (Class (isChar d)) \<longleftrightarrow> w = [d]"
  by (auto simp: isChar_def)

lemma star_all:
  "w \<in> star A \<Longrightarrow> (\<And>u. u \<in> A \<Longrightarrow> list_all P u) \<Longrightarrow> list_all P w"
  by (induction w rule: star.induct) simp_all

lemma lang_Plus_Class:
  assumes "w \<in> lang (Plus (Class C))"
  shows "w \<noteq> [] \<and> list_all C w"
proof -
  from assms obtain u v where w: "w = u @ v" and u: "u \<in> lang (Class C)"
    and v: "v \<in> star (lang (Class C))"
    by (auto simp: Plus_def)
  from v have "list_all C v" by (rule star_all) auto
  with w u show ?thesis by auto
qed

lemma lang_AtLeast2_Class:
  assumes "w \<in> lang (AtLeast2 (Class C))"
  shows "2 \<le> length w \<and> list_all C w"
proof -
  from assms obtain a b v where w: "w = a @ b @ v" and a: "a \<in> lang (Class C)"
    and b: "b \<in> lang (Class C)" and v: "v \<in> star (lang (Class C))"
    by (auto simp: AtLeast2_def)
  from v have "list_all C v" by (rule star_all) auto
  with w a b show ?thesis by auto
qed

lemma star_ends:
  "z \<in> star L \<Longrightarrow> (\<And>y. y \<in> L \<Longrightarrow> \<exists>a. a \<noteq> [] \<and> y = a @ [d]) \<Longrightarrow>
     z = [] \<or> (\<exists>p. p \<noteq> [] \<and> z = p @ [d])"
proof (induction z rule: star.induct)
  case star_empty
  show ?case by simp
next
  case (star_step u v)
  from star_step.prems [OF star_step.hyps(1)] obtain a where a: "a \<noteq> []" "u = a @ [d]" by blast
  from star_step.IH [OF star_step.prems] show ?case
  proof
    assume "v = []"
    with a show ?thesis by auto
  next
    assume "\<exists>p. p \<noteq> [] \<and> v = p @ [d]"
    then obtain p where "p \<noteq> []" "v = p @ [d]" by blast
    with a have "u @ p \<noteq> [] \<and> u @ v = (u @ p) @ [d]" by simp
    then show ?thesis by blast
  qed
qed

lemma lang_label:
  assumes "y \<in> lang (Seq (Plus (Class C)) (Class (isChar d)))"
  shows "\<exists>a. a \<noteq> [] \<and> y = a @ [d]"
proof -
  from iffD1 [OF lang_Seq_iff assms]
  obtain a b where y: "y = a @ b" and a: "a \<in> lang (Plus (Class C))"
    and b: "b \<in> lang (Class (isChar d))"
    by blast
  from b have "b = [d]" by (simp only: lang_isChar)
  with y lang_Plus_Class [OF a] show ?thesis by auto
qed

lemma lang_labels:
  assumes "x \<in> lang (Plus (Seq (Plus (Class C)) (Class (isChar d))))"
  shows "\<exists>p. p \<noteq> [] \<and> x = p @ [d]"
proof -
  let ?L = "lang (Seq (Plus (Class C)) (Class (isChar d)))"
  from iffD1 [OF lang_Plus_iff assms]
  obtain y z where x: "x = y @ z" and y: "y \<in> ?L" and z: "z \<in> star ?L"
    by blast
  from lang_label [OF y] obtain a where a: "a \<noteq> []" "y = a @ [d]" by blast
  from star_ends [OF z lang_label] show ?thesis
  proof
    assume "z = []"
    with x a show ?thesis by auto
  next
    assume "\<exists>p. p \<noteq> [] \<and> z = p @ [d]"
    then obtain p where "p \<noteq> []" "z = p @ [d]" by blast
    with x have "y @ p \<noteq> [] \<and> x = (y @ p) @ [d]" by simp
    then show ?thesis by blast
  qed
qed

lemma lang_emailDomain:
  assumes "x \<in> lang emailDomain"
  shows "\<exists>p t. x = p @ [46] @ t \<and> p \<noteq> [] \<and> 2 \<le> length t \<and> list_all atomChar t"
proof -
  from iffD1 [OF lang_Seq_iff assms [unfolded emailDomain_def]]
  obtain y t where x: "x = y @ t"
    and y: "y \<in> lang (Plus (Seq (Plus (Class atomChar)) (Class (isChar 46))))"
    and t: "t \<in> lang (AtLeast2 (Class atomChar))"
    by blast
  from lang_labels [OF y] obtain p where "p \<noteq> []" "y = p @ [46]" by blast
  with x lang_AtLeast2_Class [OF t] show ?thesis by auto
qed

lemma lang_dotted:
  assumes "z \<in> star (lang (Seq (Class (isChar 46)) (Plus (Class atomChar))))"
  shows "list_all (\<lambda>c. atomChar c \<or> c = 46) z"
  using assms
proof (rule star_all)
  fix u assume "u \<in> lang (Seq (Class (isChar 46)) (Plus (Class atomChar)))"
  from iffD1 [OF lang_Seq_iff this]
  obtain a b where u: "u = a @ b" and a: "a \<in> lang (Class (isChar 46))"
    and b: "b \<in> lang (Plus (Class atomChar))"
    by blast
  from a have "a = [46]" by (simp only: lang_isChar)
  with u lang_Plus_Class [OF b] show "list_all (\<lambda>c. atomChar c \<or> c = 46) u"
    by (auto simp: list_all_iff)
qed

lemma lang_emailLocal:
  assumes "l \<in> lang emailLocal"
  shows "l \<noteq> [] \<and>
    (list_all (\<lambda>c. atomChar c \<or> c = 46) l \<or> (\<exists>m. m \<noteq> [] \<and> l = [34] @ m @ [34]))"
proof -
  from iffD1 [OF lang_Alt_iff assms [unfolded emailLocal_def]] consider
    (unquoted) "l \<in> lang (Seq (Plus (Class atomChar)) (Star (Seq (Class (isChar 46)) (Plus (Class atomChar)))))"
  | (quoted) "l \<in> lang (Seq (Class (isChar 34)) (Seq (Plus (Class anyChar)) (Class (isChar 34))))"
    by blast
  then show ?thesis
  proof cases
    case unquoted
    from iffD1 [OF lang_Seq_iff unquoted]
    obtain a z where l: "l = a @ z" and a: "a \<in> lang (Plus (Class atomChar))"
      and z: "z \<in> lang (Star (Seq (Class (isChar 46)) (Plus (Class atomChar))))"
      by blast
    from z have z: "z \<in> star (lang (Seq (Class (isChar 46)) (Plus (Class atomChar))))"
      by (simp only: lang.simps(6))
    from lang_Plus_Class [OF a] lang_dotted [OF z] l show ?thesis
      by (auto simp: list_all_iff)
  next
    case quoted
    from iffD1 [OF lang_Seq_iff quoted]
    obtain q r where l1: "l = q @ r" and q: "q \<in> lang (Class (isChar 34))"
      and r: "r \<in> lang (Seq (Plus (Class anyChar)) (Class (isChar 34)))"
      by blast
    from iffD1 [OF lang_Seq_iff r]
    obtain m q' where l2: "r = m @ q'" and m: "m \<in> lang (Plus (Class anyChar))"
      and q': "q' \<in> lang (Class (isChar 34))"
      by blast
    from l1 l2 have l: "l = q @ m @ q'" by simp
    from q q' have "q = [34]" "q' = [34]" by (simp_all only: lang_isChar)
    with l lang_Plus_Class [OF m] show ?thesis by auto
  qed
qed

lemma emailValidator_shape:
  assumes "emailValidator v"
  shows "\<exists>l p t. v = l @ js ''@'' @ p @ js ''.'' @ t \<and> l \<noteq> [] \<and>
    (list_all (\<lambda>c. atomChar c \<or> c = 46) l \<or> (\<exists>m. m \<noteq> [] \<and> l = [34] @ m @ [34])) \<and>
    p \<noteq> [] \<and> 2 \<le> length t \<and> list_all atomChar t"
proof -
  from assms have "v \<in> lang emailRe" by (simp add: emailValidator_def regexTest_lang)
  then have "v \<in> lang (Seq emailLocal (Seq (Class (isChar 64)) emailDomain))"
    by (simp only: emailRe_def)
  from iffD1 [OF lang_Seq_iff this]
  obtain l r where v1: "v = l @ r" and l: "l \<in> lang emailLocal"
    and r: "r \<in> lang (Seq (Class (isChar 64)) emailDomain)"
    by blast
  from iffD1 [OF lang_Seq_iff r]
  obtain a x where v2: "r = a @ x" and a: "a \<in> lang (Class (isChar 64))"
    and x: "x \<in> lang emailDomain"
    by blast
  from v1 v2 have v: "v = l @ a @ x" by simp
  from a have "a = [64]" by (simp only: lang_isChar)
  then have a': "a = js ''@''" by (simp add: js_def)
  from lang_emailDomain [OF x] obtain p t where
    "x = p @ [46] @ t" "p \<noteq> []" "2 \<le> length t" "list_all atomChar t" by blast
  then have "x = p @ js ''.'' @ t \<and> p \<noteq> [] \<and> 2 \<le> length t \<and> list_all atomChar t"
    by (simp add: js_def)
  with v a' lang_emailLocal [OF l] show ?thesis by blast
qed

section \<open>Properties of the Booking schema and hook\<close>

subsection \<open>The validator and the grammar\<close>

lemma star_Class: "w \<in> star (lang (Class C)) \<longleftrightarrow> list_all C w"
proof
  assume "w \<in> star (lang (Class C))"
  then show "list_all C w" by (rule star_all) auto
next
  show "list_all C w \<Longrightarrow> w \<in> star (lang (Class C))"
  proof (induction w)
    case Nil
    show ?case by (rule star.star_empty)
  next
    case (Cons c w)
    then have "[c] \<in> lang (Class C)" and "w \<in> star (lang (Class C))" by simp_all
    then have "[c] @ w \<in> star (lang (Class C))" by (rule star.star_step)
    then show ?case by simp
  qed
qed

lemma lang_Plus_Class_iff: "w \<in> lang (Plus (Class C)) \<longleftrightarrow> w \<noteq> [] \<and> list_all C w"
proof
  assume "w \<in> lang (Plus (Class C))"
  then show "w \<noteq> [] \<and> list_all C w" by (rule lang_Plus_Class)
next
  assume a: "w \<noteq> [] \<and> list_all C w"
  then obtain c u where w: "w = c # u" by (cases w) auto
  with a have cu: "C c" "list_all C u" by simp_all
  from cu(2) have u: "u \<in> star (lang (Class C))" by (rule star_Class [THEN iffD2])
  from cu(1) have c: "[c] \<in> lang (Class C)" by simp
  from w have "w = [c] @ u" by simp
  with c u have "\<exists>x y. w = x @ y \<and> x \<in> lang (Class C) \<and> y \<in> star (lang (Class C))"
    by blast
  then show "w \<in> lang (Plus (Class C))" by (rule lang_Plus_iff [THEN iffD2])
qed

lemma lang_AtLeast2_Class_iff:
  "w \<in> lang (AtLeast2 (Class C)) \<longleftrightarrow> 2 \<le> length w \<and> list_all C w"
proof
  assume "w \<in> lang (AtLeast2 (Class C))"
  then show "2 \<le> length w \<and> list_all C w" by (rule lang_AtLeast2_Class)
next
  assume a: "2 \<le> length w \<and> list_all C w"
  then obtain c d u where w: "w = c # d # u"
    by (cases w; cases "tl w") auto
  with a have cd: "C c" "C d" "list_all C u" by simp_all
  from cd(3) have u: "u \<in> lang (Star (Class C))"
    unfolding lang.simps(6) by (rule star_Class [THEN iffD2])
  from cd(1,2) have c: "[c] \<in> lang (Class C)" and d: "[d] \<in> lang (Class C)" by simp_all
  from d u have "[d] @ u \<in> lang (Seq (Class C) (Star (Class C)))"
    by (intro lang_Seq_iff [THEN iffD2]) blast
  with c have "[c] @ [d] @ u \<in> lang (Seq (Class C) (Seq (Class C) (Star (Class C))))"
    by (intro lang_Seq_iff [THEN iffD2]) blast
  with w show "w \<in> lang (AtLeast2 (Class C))" by (simp only: AtLeast2_def append.simps)
qed

lemma star_image:
  "w \<in> star {f s | s. P s} \<longleftrightarrow> (\<exists>as. list_all P as \<and> w = concat (map f as))"
proof
  assume "w \<in> star {f s | s. P s}"
  then show "\<exists>as. list_all P as \<and> w = concat (map f as)"
  proof (induction w rule: star.induct)
    case star_empty
    have "list_all P [] \<and> [] = concat (map f [])" by simp
    then show ?case by blast
  next
    case (star_step u v)
    from star_step.hyps(1) obtain s where s: "P s" "u = f s" by blast
    from star_step.IH obtain as where "list_all P as" "v = concat (map f as)" by blast
    with s have "list_all P (s # as) \<and> u @ v = concat (map f (s # as))" by simp
    then show ?case by blast
  qed
next
  assume "\<exists>as. list_all P as \<and> w = concat (map f as)"
  then obtain as where as: "list_all P as" and w: "w = concat (map f as)" by blast
  from as have "concat (map f as) \<in> star {f s | s. P s}"
  proof (induction as)
    case Nil
    show ?case by (simp add: star.star_empty)
  next
    case (Cons a as)
    then have "f a \<in> {f s | s. P s}" and "concat (map f as) \<in> star {f s | s. P s}" by auto
    then have "f a @ concat (map f as) \<in> star {f s | s. P s}" by (rule star.star_step)
    then show ?case by simp
  qed
  with w show "w \<in> star {f s | s. P s}" by simp
qed

lemma lang_dot_atom:
  "lang (Seq (Class (isChar 46)) (Plus (Class atomChar))) = {[46] @ s | s. isAtom s}"
proof -
  have "u \<in> lang (Seq (Class (isChar 46)) (Plus (Class atomChar))) \<longleftrightarrow>
        (\<exists>s. isAtom s \<and> u = [46] @ s)" for u
    unfolding lang_Seq_iff lang_isChar lang_Plus_Class_iff isAtom_def by blast
  then show ?thesis by blast
qed

lemma lang_atom_dot:
  "lang (Seq (Plus (Class atomChar)) (Class (isChar 46))) = {s @ [46] | s. isAtom s}"
proof -
  have "u \<in> lang (Seq (Plus (Class atomChar)) (Class (isChar 46))) \<longleftrightarrow>
        (\<exists>s. isAtom s \<and> u = s @ [46])" for u
    unfolding lang_Seq_iff lang_isChar lang_Plus_Class_iff isAtom_def by blast
  then show ?thesis by blast
qed

lemma lang_unquoted:
  "l \<in> lang (Seq (Plus (Class atomChar)) (Star (Seq (Class (isChar 46)) (Plus (Class atomChar)))))
     \<longleftrightarrow> unquotedLocal l"
proof -
  have "l \<in> lang (Seq (Plus (Class atomChar)) (Star (Seq (Class (isChar 46)) (Plus (Class atomChar)))))
      \<longleftrightarrow> (\<exists>a z. l = a @ z \<and> isAtom a \<and> z \<in> star {[46] @ s | s. isAtom s})"
    unfolding lang_Seq_iff lang.simps(6) lang_dot_atom lang_Plus_Class_iff isAtom_def by blast
  also have "\<dots> \<longleftrightarrow> unquotedLocal l"
    unfolding star_image unquotedLocal_def by blast
  finally show ?thesis .
qed

lemma lang_quoted:
  "l \<in> lang (Seq (Class (isChar 34)) (Seq (Plus (Class anyChar)) (Class (isChar 34))))
     \<longleftrightarrow> quotedLocal l"
  unfolding lang_Seq_iff lang_isChar lang_Plus_Class_iff quotedLocal_def by blast

lemma lang_emailLocal_iff: "l \<in> lang emailLocal \<longleftrightarrow> unquotedLocal l \<or> quotedLocal l"
  unfolding emailLocal_def lang_Alt_iff lang_unquoted lang_quoted ..

lemma lang_labels_iff:
  "y \<in> lang (Plus (Seq (Plus (Class atomChar)) (Class (isChar 46)))) \<longleftrightarrow>
     (\<exists>b bs. isAtom b \<and> list_all isAtom bs \<and> y = concat (map (\<lambda>s. s @ [46]) (b # bs)))"
proof
  let ?R = "Seq (Plus (Class atomChar)) (Class (isChar 46))"
  assume "y \<in> lang (Plus ?R)"
  from iffD1 [OF lang_Plus_iff this]
  obtain u v where y: "y = u @ v" and u: "u \<in> lang ?R" and v: "v \<in> star (lang ?R)"
    by blast
  from u obtain b where b: "isAtom b" "u = b @ [46]" unfolding lang_atom_dot by blast
  from v have "v \<in> star {s @ [46] | s. isAtom s}" by (simp only: lang_atom_dot)
  from iffD1 [OF star_image this]
  obtain bs where bs: "list_all isAtom bs" "v = concat (map (\<lambda>s. s @ [46]) bs)" by blast
  from y b bs have "isAtom b \<and> list_all isAtom bs \<and> y = concat (map (\<lambda>s. s @ [46]) (b # bs))"
    by simp
  then show "\<exists>b bs. isAtom b \<and> list_all isAtom bs \<and> y = concat (map (\<lambda>s. s @ [46]) (b # bs))"
    by blast
next
  let ?R = "Seq (Plus (Class atomChar)) (Class (isChar 46))"
  assume "\<exists>b bs. isAtom b \<and> list_all isAtom bs \<and> y = concat (map (\<lambda>s. s @ [46]) (b # bs))"
  then obtain b bs where b: "isAtom b" and bs: "list_all isAtom bs"
    and y: "y = concat (map (\<lambda>s. s @ [46]) (b # bs))"
    by blast
  from b have u: "b @ [46] \<in> lang ?R" unfolding lang_atom_dot by blast
  from bs have "\<exists>as. list_all isAtom as \<and>
      concat (map (\<lambda>s. s @ [46]) bs) = concat (map (\<lambda>s. s @ [46]) as)"
    by blast
  then have "concat (map (\<lambda>s. s @ [46]) bs) \<in> star {s @ [46] | s. isAtom s}"
    by (rule iffD2 [OF star_image])
  then have v: "concat (map (\<lambda>s. s @ [46]) bs) \<in> star (lang ?R)"
    by (simp only: lang_atom_dot)
  from y have "y = (b @ [46]) @ concat (map (\<lambda>s. s @ [46]) bs)" by simp
  with u v have "\<exists>u v. y = u @ v \<and> u \<in> lang ?R \<and> v \<in> star (lang ?R)" by blast
  then show "y \<in> lang (Plus ?R)" by (rule iffD2 [OF lang_Plus_iff])
qed

lemma lang_emailDomain_iff: "d \<in> lang emailDomain \<longleftrightarrow> dottedDomain d"
proof
  assume "d \<in> lang emailDomain"
  from iffD1 [OF lang_Seq_iff this [unfolded emailDomain_def]]
  obtain y t where d: "d = y @ t"
    and y: "y \<in> lang (Plus (Seq (Plus (Class atomChar)) (Class (isChar 46))))"
    and t: "t \<in> lang (AtLeast2 (Class atomChar))"
    by blast
  from iffD1 [OF lang_labels_iff y]
  obtain b bs where b: "isAtom b" "list_all isAtom bs" "y = concat (map (\<lambda>s. s @ [46]) (b # bs))"
    by blast
  from iffD1 [OF lang_AtLeast2_Class_iff t] have "2 \<le> length t" "list_all atomChar t" by simp_all
  with d b have "isAtom b \<and> list_all isAtom bs \<and> list_all atomChar t \<and> 2 \<le> length t \<and>
        d = concat (map (\<lambda>s. s @ [46]) (b # bs)) @ t"
    by simp
  then show "dottedDomain d" unfolding dottedDomain_def by blast
next
  assume "dottedDomain d"
  then obtain b bs t where b: "isAtom b" "list_all isAtom bs"
    and t: "list_all atomChar t" "2 \<le> length t"
    and d: "d = concat (map (\<lambda>s. s @ [46]) (b # bs)) @ t"
    unfolding dottedDomain_def by blast
  from b have "\<exists>b' bs'. isAtom b' \<and> list_all isAtom bs' \<and>
      concat (map (\<lambda>s. s @ [46]) (b # bs)) = concat (map (\<lambda>s. s @ [46]) (b' # bs'))"
    by blast
  then have y: "concat (map (\<lambda>s. s @ [46]) (b # bs)) \<in>
      lang (Plus (Seq (Plus (Class atomChar)) (Class (isChar 46))))"
    by (rule iffD2 [OF lang_labels_iff])
  from t have t': "t \<in> lang (AtLeast2 (Class atomChar))"
    by (intro iffD2 [OF lang_AtLeast2_Class_iff]) simp
  from y t' d have "\<exists>u v. d = u @ v \<and>
      u \<in> lang (Plus (Seq (Plus (Class atomChar)) (Class (isChar 46)))) \<and>
      v \<in> lang (AtLeast2 (Class atomChar))"
    by blast
  then show "d \<in> lang emailDomain"
    unfolding emailDomain_def by (rule iffD2 [OF lang_Seq_iff])
qed

lemma emailValidator_grammar: "emailValidator v \<longleftrightarrow> emailGrammar v"
proof -
  have 1: "emailValidator v \<longleftrightarrow> v \<in> lang (Seq emailLocal (Seq (Class (isChar 64)) emailDomain))"
    unfolding emailValidator_def emailRe_def by (rule regexTest_lang)
  have 2: "r \<in> lang (Seq (Class (isChar 64)) emailDomain) \<longleftrightarrow> (\<exists>d. dottedDomain d \<and> r = [64] @ d)" for r
    unfolding lang_Seq_iff lang_isChar lang_emailDomain_iff by blast
  show ?thesis
  proof
    assume "emailValidator v"
    with 1 have "v \<in> lang (Seq emailLocal (Seq (Class (isChar 64)) emailDomain))" by simp
    from iffD1 [OF lang_Seq_iff this]
    obtain l r where v: "v = l @ r" and l: "l \<in> lang emailLocal"
      and r: "r \<in> lang (Seq (Class (isChar 64)) emailDomain)"
      by blast
    from iffD1 [OF 2 r] obtain d where d: "dottedDomain d" "r = [64] @ d" by blast
    from l have "unquotedLocal l \<or> quotedLocal l" by (simp only: lang_emailLocal_iff)
    with v d have "(unquotedLocal l \<or> quotedLocal l) \<and> dottedDomain d \<and> v = l @ [64] @ d"
      by simp
    then show "emailGrammar v" unfolding emailGrammar_def by blast
  next
    assume "emailGrammar v"
    then obtain l d where l: "unquotedLocal l \<or> quotedLocal l" and d: "dottedDomain d"
      and v: "v = l @ [64] @ d"
      unfolding emailGrammar_def by blast
    from l have l': "l \<in> lang emailLocal" by (simp only: lang_emailLocal_iff)
    from d have "[64] @ d \<in> lang (Seq (Class (isChar 64)) emailDomain)"
      by (intro iffD2 [OF 2]) blast
    with l' have "\<exists>x y. v = x @ y \<and> x \<in> lang emailLocal \<and>
        y \<in> lang (Seq (Class (isChar 64)) emailDomain)"
      unfolding v by blast
    then have "v \<in> lang (Seq emailLocal (Seq (Class (isChar 64)) emailDomain))"
      by (rule iffD2 [OF lang_Seq_iff])
    with 1 show "emailValidator v" by simp
  qed
qed

subsection \<open>Saving a booking\<close>

lemma validateBooking_email:
  assumes "email this = Some v" and "v \<noteq> []" and "\<not> emailValidator v"
  shows "(''email'', v @ js '' is not a valid email'') \<in> set (validateBooking this) \<and>
         validateBooking this \<noteq> []"
  using assms by (simp add: validateBooking_def emailMessage_def split: option.splits)

lemma Booking_save_invalid:
  "validateBooking this \<noteq> [] \<Longrightarrow>
     Booking_save db this = (Inl (ValidationError (validateBooking this)), db)"
  by (cases "validateBooking this") (simp_all add: Booking_save_def)

lemma Booking_save_hook:
  "validateBooking this = [] \<Longrightarrow> BookingSchema_pre_save (models_Event db) this = Some err \<Longrightarrow>
     Booking_save db this = (Inl err, db)"
  by (simp add: Booking_save_def)

lemma Booking_save_ok:
  assumes "fst (Booking_save db this) = Inr doc"
  shows "doc = this \<and> validateBooking this = [] \<and>
         BookingSchema_pre_save (models_Event db) this = None \<and>
         snd (Booking_save db this) = db\<lparr>bookings := bookings db @ [this]\<rparr>"
  using assms by (auto simp: Booking_save_def split: list.splits option.splits)

lemma validateBooking_Nil:
  "validateBooking this = [] \<Longrightarrow>
     \<exists>i v. eventId this = Some i \<and> email this = Some v \<and> v \<noteq> [] \<and> emailValidator v"
  by (auto simp: validateBooking_def split: option.splits if_splits)

lemmas regex_defs = emailValidator_def regexTest_def emailRe_def emailLocal_def emailDomain_def
  Plus_def AtLeast2_def atomChar_def anyChar_def isChar_def isWhiteSpace_def js_def

lemma email_example_valid: "emailValidator (js ''user@example.com'')"
  by (simp add: regex_defs)

lemma email_example_setters:
  "emailSetters host (js '' USER@Example.COM '') = js ''user@example.com''"
  by (simp add: emailSetters_def trim_def toLowerCase_def isASCII_def lowerASCII_def
      isWhiteSpace_def js_def)

lemma email_example_save:
  "Booking_save store0 (Booking_new host (Some 7) (Some (js '' USER@Example.COM ''))) =
     (Inr \<lparr>eventId = Some 7, email = Some (js ''user@example.com'')\<rparr>,
      store0\<lparr>bookings := [\<lparr>eventId = Some 7, email = Some (js ''user@example.com'')\<rparr>]\<rparr>)"
proof -
  have n: "js ''user@example.com'' \<noteq> []" by (simp add: js_def)
  have b: "Booking_new host (Some 7) (Some (js '' USER@Example.COM '')) =
      \<lparr>eventId = Some 7, email = Some (js ''user@example.com'')\<rparr>"
    by (simp add: Booking_new_def email_example_setters)
  have v: "validateBooking \<lparr>eventId = Some 7, email = Some (js ''user@example.com'')\<rparr> = []"
    by (simp add: validateBooking_def email_example_valid n)
  have h: "BookingSchema_pre_save (models_Event store0)
      \<lparr>eventId = Some 7, email = Some (js ''user@example.com'')\<rparr> = None"
    by (simp add: BookingSchema_pre_save_def EventModel_exists_def store0_def)
  show ?thesis
    unfolding b
    by (simp add: Booking_save_def v store0_def BookingSchema_pre_save_def EventModel_exists_def)
qed

lemma lowerASCII_space: "isWhiteSpace (lowerASCII c) = isWhiteSpace c"
  by (auto simp: isWhiteSpace_def lowerASCII_def)

lemma trim_lowerASCII: "trim (map lowerASCII s) = map lowerASCII (trim s)"
  by (simp add: trim_def dropWhile_map rev_map comp_def lowerASCII_space)

lemma trim_ASCII: "list_all isASCII s \<Longrightarrow> list_all isASCII (trim s)"
  by (auto simp: trim_def list_all_iff dest!: set_dropWhileD)

lemma trim_toLowerCase_ASCII:
  assumes "list_all isASCII s"
  shows "trim (toLowerCase host s) = toLowerCase host (trim s)"
  using assms trim_ASCII [OF assms] by (simp add: toLowerCase_def trim_lowerASCII)

lemma emailGrammar_shape:
  assumes "emailGrammar v"
  shows "\<exists>l p t. v = l @ js ''@'' @ p @ js ''.'' @ t \<and> l \<noteq> [] \<and>
    (list_all (\<lambda>c. atomChar c \<or> c = 46) l \<or> (\<exists>m. m \<noteq> [] \<and> l = [34] @ m @ [34])) \<and>
    p \<noteq> [] \<and> 2 \<le> length t \<and> list_all atomChar t"
  using assms emailValidator_shape [of v] by (simp only: emailValidator_grammar)

text \<open>
  C7. The validator accepts exactly the values of the grammar: a local part, unquoted
  (atoms separated by dots) or quoted, an \<^verbatim>\<open>@\<close>, and a domain of one or more atoms
  each followed by a dot and then a top-level segment of at least two characters of the
  class; such a value has the form local part, \<^verbatim>\<open>@\<close>, text, dot, top-level segment.
  A document whose e-mail is not of the grammar is not saved: validation reports, for
  the path \<open>email\<close>, the message that starts with the value itself. A document that is
  saved has an e-mail of the grammar. A document made from a raw e-mail holds it
  lower-cased and trimmed (for an ASCII e-mail the two commute). The e-mail
  \<^verbatim>\<open>" USER@Example.COM "\<close> is stored as \<^verbatim>\<open>user@example.com\<close> when the event exists.
\<close>

theorem email_validation:
  "emailValidator v = emailGrammar v \<and>
   (emailGrammar v \<longrightarrow>
      (\<exists>l p t. v = l @ js ''@'' @ p @ js ''.'' @ t \<and> l \<noteq> [] \<and>
         (list_all (\<lambda>c. atomChar c \<or> c = 46) l \<or> (\<exists>m. m \<noteq> [] \<and> l = [34] @ m @ [34])) \<and>
         p \<noteq> [] \<and> 2 \<le> length t \<and> list_all atomChar t)) \<and>
   (email this = Some v \<and> v \<noteq> [] \<and> \<not> emailGrammar v \<longrightarrow>
      (\<exists>errs. Booking_save db this = (Inl (ValidationError errs), db) \<and>
         (''email'', v @ js '' is not a valid email'') \<in> set errs)) \<and>
   (fst (Booking_save db this) = Inr doc \<longrightarrow>
      doc = this \<and> (\<exists>w. email this = Some w \<and> emailGrammar w)) \<and>
   email (Booking_new host i (Some raw)) = Some (trim (toLowerCase host raw)) \<and>
   (list_all isASCII raw \<longrightarrow> trim (toLowerCase host raw) = toLowerCase host (trim raw)) \<and>
   Booking_save store0 (Booking_new host (Some 7) (Some (js '' USER@Example.COM ''))) =
     (Inr \<lparr>eventId = Some 7, email = Some (js ''user@example.com'')\<rparr>,
      store0\<lparr>bookings := [\<lparr>eventId = Some 7, email = Some (js ''user@example.com'')\<rparr>]\<rparr>)"
proof -
  have g: "emailValidator v = emailGrammar v" by (rule emailValidator_grammar)
  have a: "emailGrammar v \<longrightarrow>
      (\<exists>l p t. v = l @ js ''@'' @ p @ js ''.'' @ t \<and> l \<noteq> [] \<and>
         (list_all (\<lambda>c. atomChar c \<or> c = 46) l \<or> (\<exists>m. m \<noteq> [] \<and> l = [34] @ m @ [34])) \<and>
         p \<noteq> [] \<and> 2 \<le> length t \<and> list_all atomChar t)"
    by (rule impI) (rule emailGrammar_shape)
  have b: "email this = Some v \<and> v \<noteq> [] \<and> \<not> emailGrammar v \<longrightarrow>
      (\<exists>errs. Booking_save db this = (Inl (ValidationError errs), db) \<and>
         (''email'', v @ js '' is not a valid email'') \<in> set errs)"
  proof
    assume "email this = Some v \<and> v \<noteq> [] \<and> \<not> emailGrammar v"
    then have "email this = Some v" "v \<noteq> []" "\<not> emailValidator v"
      by (simp_all add: emailValidator_grammar)
    then have "(''email'', v @ js '' is not a valid email'') \<in> set (validateBooking this) \<and>
         validateBooking this \<noteq> []"
      by (rule validateBooking_email)
    with Booking_save_invalid [of this db] show "\<exists>errs. Booking_save db this = (Inl (ValidationError errs), db) \<and>
         (''email'', v @ js '' is not a valid email'') \<in> set errs"
      by blast
  qed
  have c: "fst (Booking_save db this) = Inr doc \<longrightarrow>
      doc = this \<and> (\<exists>w. email this = Some w \<and> emailGrammar w)"
  proof
    assume "fst (Booking_save db this) = Inr doc"
    from Booking_save_ok [OF this] validateBooking_Nil [of this]
    show "doc = this \<and> (\<exists>w. email this = Some w \<and> emailGrammar w)"
      unfolding emailValidator_grammar by blast
  qed
  have d: "email (Booking_new host i (Some raw)) = Some (trim (toLowerCase host raw))"
    by (simp add: Booking_new_def emailSetters_def)
  have e: "list_all isASCII raw \<longrightarrow> trim (toLowerCase host raw) = toLowerCase host (trim raw)"
    by (rule impI) (rule trim_toLowerCase_ASCII)
  show ?thesis by (intro conjI g a b c d e email_example_save)
qed

theorem email_validation_witness:
  "emailGrammar (34 # js ''a b'' @ 34 # js ''@x.io'') \<and>
   emailGrammar (js ''user@example.com'') \<and>
   \<not> emailGrammar (js ''a@b.c'') \<and>
   \<not> emailGrammar (js ''user@example'') \<and>
   (\<exists>l p t. js ''user@example.com'' = l @ js ''@'' @ p @ js ''.'' @ t \<and> l \<noteq> [] \<and> p \<noteq> [] \<and>
      2 \<le> length t) \<and>
   (\<exists>errs. Booking_save store0 \<lparr>eventId = Some 7, email = Some (js ''user@example'')\<rparr> =
      (Inl (ValidationError errs), store0) \<and>
      (''email'', js ''user@example is not a valid email'') \<in> set errs)"
proof -
  have q: "emailValidator (34 # js ''a b'' @ 34 # js ''@x.io'')" by (simp add: regex_defs)
  have v: "emailValidator (js ''user@example.com'')" by (rule email_example_valid)
  have s: "\<not> emailValidator (js ''a@b.c'')" by (simp add: regex_defs)
  have n: "\<not> emailValidator (js ''user@example'')" by (simp add: regex_defs)
  note t0 = email_validation [where v = "34 # js ''a b'' @ 34 # js ''@x.io''"]
  note t1 = email_validation [where v = "js ''user@example.com''"]
  note t3 = email_validation [where v = "js ''a@b.c''"]
  note t2 = email_validation [where v = "js ''user@example''" and db = store0
      and this = "\<lparr>eventId = Some 7, email = Some (js ''user@example'')\<rparr>"]
  from t0 q have 0: "emailGrammar (34 # js ''a b'' @ 34 # js ''@x.io'')" by blast
  from t1 v have 1: "emailGrammar (js ''user@example.com'')" by blast
  from t3 s have 3: "\<not> emailGrammar (js ''a@b.c'')" by blast
  from t2 n have 2: "\<not> emailGrammar (js ''user@example'')" by blast
  from t1 1 have 4: "\<exists>l p t. js ''user@example.com'' = l @ js ''@'' @ p @ js ''.'' @ t \<and> l \<noteq> [] \<and> p \<noteq> [] \<and>
      2 \<le> length t"
    by blast
  have m: "js ''user@example'' @ js '' is not a valid email'' = js ''user@example is not a valid email''"
    by (simp add: js_def)
  have p: "email \<lparr>eventId = Some 7, email = Some (js ''user@example'')\<rparr> = Some (js ''user@example'')
      \<and> js ''user@example'' \<noteq> [] \<and> \<not> emailGrammar (js ''user@example'')"
    using 2 by (simp add: js_def)
  from t2 p have 5: "\<exists>errs. Booking_save store0 \<lparr>eventId = Some 7, email = Some (js ''user@example'')\<rparr> =
      (Inl (ValidationError errs), store0) \<and>
      (''email'', js ''user@example is not a valid email'') \<in> set errs"
    unfolding m by blast
  from 0 1 3 2 4 5 show ?thesis by blast
qed

lemma Booking_save_failed:
  assumes "BookingSchema_pre_save (models_Event db) this = Some err"
  shows "snd (Booking_save db this) = db \<and> (\<exists>e. fst (Booking_save db this) = Inl e)"
proof (cases "validateBooking this = []")
  case True
  from Booking_save_hook [OF True assms] show ?thesis by simp
next
  case False
  from Booking_save_invalid [OF False] show ?thesis by simp
qed

text \<open>
  C1. The hook fails with \<^verbatim>\<open>eventId is required\<close> when the document has no eventId,
  with \<^verbatim>\<open>Event model is not registered\<close> when there is no Event model, and with
  \<^verbatim>\<open>Referenced eventId does not exist\<close> when the Event model answers and holds no
  event with that identifier; it passes when it holds one. The three messages are
  pairwise different. Whenever the hook fails, the save reports an error and leaves the
  store as it was; after a passed validation the error is the hook's.
\<close>

theorem booking_reference_check:
  "(eventId this = None \<longrightarrow>
      BookingSchema_pre_save EventModel this = Some (Error (js ''eventId is required''))) \<and>
   (eventId this = Some i \<longrightarrow>
      BookingSchema_pre_save None this = Some (Error (js ''Event model is not registered''))) \<and>
   (eventId this = Some i \<and> failure M = None \<and> i \<notin> set (ids M) \<longrightarrow>
      BookingSchema_pre_save (Some M) this =
        Some (Error (js ''Referenced eventId does not exist''))) \<and>
   (eventId this = Some i \<and> failure M = None \<and> i \<in> set (ids M) \<longrightarrow>
      BookingSchema_pre_save (Some M) this = None) \<and>
   distinct [js ''eventId is required'', js ''Event model is not registered'',
     js ''Referenced eventId does not exist''] \<and>
   (BookingSchema_pre_save (models_Event db) this = Some err \<longrightarrow>
      snd (Booking_save db this) = db \<and> (\<exists>e. fst (Booking_save db this) = Inl e) \<and>
      (validateBooking this = [] \<longrightarrow> Booking_save db this = (Inl err, db)))"
proof -
  have 1: "eventId this = None \<longrightarrow>
      BookingSchema_pre_save EventModel this = Some (Error (js ''eventId is required''))"
    by (simp add: BookingSchema_pre_save_def)
  have 2: "eventId this = Some i \<longrightarrow>
      BookingSchema_pre_save None this = Some (Error (js ''Event model is not registered''))"
    by (simp add: BookingSchema_pre_save_def)
  have 3: "eventId this = Some i \<and> failure M = None \<and> i \<notin> set (ids M) \<longrightarrow>
      BookingSchema_pre_save (Some M) this =
        Some (Error (js ''Referenced eventId does not exist''))"
    by (simp add: BookingSchema_pre_save_def EventModel_exists_def)
  have 4: "eventId this = Some i \<and> failure M = None \<and> i \<in> set (ids M) \<longrightarrow>
      BookingSchema_pre_save (Some M) this = None"
    by (simp add: BookingSchema_pre_save_def EventModel_exists_def)
  have 5: "distinct [js ''eventId is required'', js ''Event model is not registered'',
     js ''Referenced eventId does not exist'']"
    by (simp add: js_def)
  have 6: "BookingSchema_pre_save (models_Event db) this = Some err \<longrightarrow>
      snd (Booking_save db this) = db \<and> (\<exists>e. fst (Booking_save db this) = Inl e) \<and>
      (validateBooking this = [] \<longrightarrow> Booking_save db this = (Inl err, db))"
    using Booking_save_failed [of db this err] Booking_save_hook [of this db err] by blast
  show ?thesis by (intro conjI 1 2 3 4 5 6)
qed

theorem booking_reference_check_witness:
  "Booking_save store0 \<lparr>eventId = Some 9, email = Some (js ''user@example.com'')\<rparr> =
     (Inl (Error (js ''Referenced eventId does not exist'')), store0) \<and>
   BookingSchema_pre_save None \<lparr>eventId = Some 9, email = Some (js ''user@example.com'')\<rparr> =
     Some (Error (js ''Event model is not registered'')) \<and>
   BookingSchema_pre_save (models_Event store0) \<lparr>eventId = None, email = Some (js ''user@example.com'')\<rparr> =
     Some (Error (js ''eventId is required''))"
proof -
  let ?b = "\<lparr>eventId = Some 9, email = Some (js ''user@example.com'')\<rparr>"
  let ?M = "\<lparr>ids = [7, 8], failure = None\<rparr>"
  have m: "models_Event store0 = Some ?M" by (simp add: store0_def)
  have n: "js ''user@example.com'' \<noteq> []" by (simp add: js_def)
  have v: "validateBooking ?b = []"
    by (simp add: validateBooking_def email_example_valid n)
  note t = booking_reference_check [where this = ?b and i = 9 and M = ?M and db = store0
      and err = "Error (js ''Referenced eventId does not exist'')"]
  have h: "eventId ?b = Some 9 \<and> failure ?M = None \<and> 9 \<notin> set (ids ?M)" by simp
  with t have "BookingSchema_pre_save (Some ?M) ?b =
      Some (Error (js ''Referenced eventId does not exist''))"
    by blast
  with t v m have 1: "Booking_save store0 ?b =
      (Inl (Error (js ''Referenced eventId does not exist'')), store0)"
    by simp
  from t h have 2: "BookingSchema_pre_save None ?b =
      Some (Error (js ''Event model is not registered''))"
    by blast
  have 3: "BookingSchema_pre_save (models_Event store0) \<lparr>eventId = None, email = Some (js ''user@example.com'')\<rparr> =
     Some (Error (js ''eventId is required''))"
    using booking_reference_check [where this = "\<lparr>eventId = None, email = Some (js ''user@example.com'')\<rparr>"
        and EventModel = "models_Event store0"]
    by simp
  from 1 2 3 show ?thesis by blast
qed

end
